theory Spec2Isabelle
  imports Complex_Main
begin

section \<open>Python values and strings\<close>

text \<open>
  The values the scraper stores in an item's fields. A Python \<open>float\<close> produced by
  \<open>float(token)\<close> is represented by the exact decimal value of the token it was parsed
  from (the rounding to the nearest double is a function of that value and is not modelled).
  A string is a list of 8-bit characters; a code point beyond ASCII stands as its UTF-8
  bytes, none of which is an ASCII digit, letter, period, comma or blank.
\<close>

datatype pyval = VNone | VStr string | VInt int | VFloat rat

definition is_digit :: "char \<Rightarrow> bool" where
  "is_digit c = (c \<in> set ''0123456789'')"

definition digit_val :: "char \<Rightarrow> nat" where
  "digit_val c = of_char c - 48"

definition int_of_digits :: "string \<Rightarrow> nat" where
  "int_of_digits ds = foldl (\<lambda>n c. 10 * n + digit_val c) 0 ds"

text \<open>\<open>str.replace(old, new)\<close> for single-character \<open>old\<close> and \<open>new\<close>.\<close>

definition replace_char :: "char \<Rightarrow> char \<Rightarrow> string \<Rightarrow> string" where
  "replace_char old new s = map (\<lambda>c. if c = old then new else c) s"

section \<open>Field parsers\<close>

subsection \<open>\<open>parse_price\<close>\<close>

text \<open>
  \<open>re.search(r"([0-9]+(?:\.[0-9]+)?)", s)\<close>. \<open>match_fraction\<close> is the optional group
  \<open>(?:\.[0-9]+)?\<close> tried at the head of its argument: it yields the matched text, empty when
  the group does not match. \<open>re_match_number\<close> is the whole pattern anchored at the head of
  its argument (\<open>[0-9]+\<close> is greedy); \<open>re_search_number\<close> tries each start position from
  left to right, as \<open>re.search\<close> does, and returns \<open>m.group(1)\<close>.
\<close>

definition match_fraction :: "string \<Rightarrow> string" where
  "match_fraction s =
     (case s of
        [] \<Rightarrow> []
      | c # r \<Rightarrow> if c = CHR ''.'' \<and> takeWhile is_digit r \<noteq> [] then c # takeWhile is_digit r else [])"

definition re_match_number :: "string \<Rightarrow> string option" where
  "re_match_number s =
     (let ds = takeWhile is_digit s
      in if ds = [] then None else Some (ds @ match_fraction (dropWhile is_digit s)))"

fun re_search_number :: "string \<Rightarrow> string option" where
  "re_search_number [] = None"
| "re_search_number (c # cs) =
     (case re_match_number (c # cs) of
        Some t \<Rightarrow> Some t
      | None \<Rightarrow> re_search_number cs)"

text \<open>
  \<open>float(t)\<close> for a token \<open>t\<close> of the shape \<open>digits\<close> or \<open>digits.digits\<close>: its decimal
  value.
\<close>

definition py_float :: "string \<Rightarrow> rat" where
  "py_float t =
     (let ip = takeWhile is_digit t; fp = drop (Suc (length ip)) t
      in of_nat (int_of_digits ip) + of_nat (int_of_digits fp) / 10 ^ length fp)"

definition parse_price :: "string \<Rightarrow> rat option" where
  "parse_price text =
     (if text = [] then None
      else case re_search_number (replace_char CHR '','' CHR ''.'' text) of
             Some t \<Rightarrow> Some (py_float t)
           | None \<Rightarrow> None)"

subsection \<open>\<open>parse_rating\<close>\<close>

text \<open>
  A tag as \<open>parse_rating\<close> sees it: the value of its \<open>class\<close> attribute, \<open>None\<close> when the
  attribute is missing (\<open>tag.get("class", [])\<close> then gives the empty list). A tag object is
  always truthy, so \<open>not tag\<close> holds for \<open>None\<close> only.
\<close>

record tag =
  tag_class :: "string list option"

definition mapping :: "(string \<times> int) list" where
  "mapping = [(''One'', 1), (''Two'', 2), (''Three'', 3), (''Four'', 4), (''Five'', 5)]"

fun rating_of_classes :: "string list \<Rightarrow> int option" where
  "rating_of_classes [] = None"
| "rating_of_classes (cls # rest) =
     (case map_of mapping cls of
        Some n \<Rightarrow> Some n
      | None \<Rightarrow> rating_of_classes rest)"

definition parse_rating :: "tag option \<Rightarrow> int option" where
  "parse_rating t =
     (case t of
        None \<Rightarrow> None
      | Some tg \<Rightarrow> rating_of_classes (case tag_class tg of None \<Rightarrow> [] | Some cs \<Rightarrow> cs))"

section \<open>Strings and dictionaries\<close>

text \<open>
  \<open>str.lower()\<close> on the letters \<open>A\<close> to \<open>Z\<close>; other characters are left as they are.
\<close>

definition lower_char :: "char \<Rightarrow> char" where
  "lower_char c =
     (case map_of (zip ''ABCDEFGHIJKLMNOPQRSTUVWXYZ'' ''abcdefghijklmnopqrstuvwxyz'') c of
        Some l \<Rightarrow> l
      | None \<Rightarrow> c)"

definition lower :: "string \<Rightarrow> string" where
  "lower s = map lower_char s"

definition is_space :: "char \<Rightarrow> bool" where
  "is_space c = (c \<in> {CHR '' '', CHR 0x09, CHR 0x0A, CHR 0x0B, CHR 0x0C, CHR 0x0D})"

text \<open>\<open>s.split()\<close>: the maximal runs of non-whitespace characters.\<close>

fun split_ws :: "string \<Rightarrow> string \<Rightarrow> string list" where
  "split_ws cur [] = (if cur = [] then [] else [cur])"
| "split_ws cur (c # cs) =
     (if is_space c then (if cur = [] then split_ws [] cs else cur # split_ws [] cs)
      else split_ws (cur @ [c]) cs)"

text \<open>\<open>" ".join(ws)\<close>\<close>

fun join_space :: "string list \<Rightarrow> string" where
  "join_space [] = []"
| "join_space [w] = w"
| "join_space (w # ws) = w @ '' '' @ join_space ws"

definition endswith :: "string \<Rightarrow> string \<Rightarrow> bool" where
  "endswith s suffix = (length suffix \<le> length s \<and> drop (length s - length suffix) s = suffix)"

fun str_nat :: "nat \<Rightarrow> string" where
  "str_nat n =
     (if n < 10 then [''0123456789'' ! n] else str_nat (n div 10) @ [''0123456789'' ! (n mod 10)])"

definition str_int :: "int \<Rightarrow> string" where
  "str_int i = (if i < 0 then CHR ''-'' # str_nat (nat (- i)) else str_nat (nat i))"

text \<open>
  A Python \<open>dict\<close> with string keys as an association list in insertion order, without
  repeated keys. \<open>dict_set d k v\<close> is \<open>d[k] = v\<close>: an existing key keeps its position and
  takes the new value, a new key goes to the end. \<open>dict_update d e\<close> is \<open>d.update(e)\<close>.
\<close>

type_synonym dict = "(string \<times> pyval) list"

definition dict_get :: "dict \<Rightarrow> string \<Rightarrow> pyval option" where
  "dict_get d k = map_of d k"

fun dict_set :: "dict \<Rightarrow> string \<Rightarrow> pyval \<Rightarrow> dict" where
  "dict_set [] k v = [(k, v)]"
| "dict_set ((k', v') # d) k v = (if k' = k then (k, v) # d else (k', v') # dict_set d k v)"

fun dict_update :: "dict \<Rightarrow> dict \<Rightarrow> dict" where
  "dict_update d [] = d"
| "dict_update d ((k, v) # e) = dict_update (dict_set d k v) e"

definition dict_keys :: "dict \<Rightarrow> string list" where
  "dict_keys d = map fst d"

section \<open>Documents, the network and effects\<close>

text \<open>
  A parsed document is represented by what the selectors used in the program return on it.
  An element that \<open>select_one\<close> or \<open>find\<close> does not find is \<open>None\<close>; texts are those
  returned by \<open>get_text(strip=True)\<close>.
\<close>

record anchor =
  a_title :: "string option"
  a_text :: string
  a_href :: "string option"

record card =
  card_link :: "anchor option"
  price_text :: "string option"
  rating_tag :: "tag option"
  avail_text :: "string option"

record table_row =
  th_text :: "string option"
  td_text :: "string option"

record img =
  img_src :: "string option"

record soup =
  cards :: "card list"
  next_a :: "anchor option"
  crumbs :: "string list"
  description_header :: "string option option"
  table_rows :: "table_row list option"
  active_img :: "img option"
  first_img :: "img option"

record response =
  status_code :: int
  reason :: string
  resp_url :: string
  resp_text :: string

datatype http_result = Returns response | Raises string

datatype request_exception = ConnectionFailure string | HTTPError int string string

datatype exception = RuntimeError string | AttributeError string | KeyError string

record dataframe =
  columns :: "string list"
  records :: "dict list"

datatype event =
    Get string
  | Sleep nat
  | Print string
  | ToCsv string dataframe
  | ToExcel string dataframe

text \<open>
  The world is the trace of the effects performed so far. The environment holds the
  collaborators: \<open>session_get env url n\<close> is the outcome of \<open>session.get(url, ...)\<close> when
  \<open>n\<close> requests have been issued before it (a response, or a \<open>RequestException\<close> with its
  message), \<open>html_parser\<close> is \<open>BeautifulSoup(text, "html.parser")\<close> and \<open>urljoin\<close> is the
  standard library's function, whose second argument may be \<open>None\<close>.
\<close>

type_synonym world = "event list"

record env =
  session_get :: "string \<Rightarrow> nat \<Rightarrow> http_result"
  html_parser :: "string \<Rightarrow> soup"
  urljoin :: "string \<Rightarrow> string option \<Rightarrow> string"

fun is_get :: "event \<Rightarrow> bool" where
  "is_get (Get u) = True"
| "is_get e = False"

definition requests_made :: "world \<Rightarrow> nat" where
  "requests_made w = length (filter is_get w)"

text \<open>
  \<open>str(e)\<close>. A \<open>RequestException\<close> raised by \<open>session.get\<close> has the message given by
  the environment; the \<open>HTTPError\<close> of \<open>raise_for_status\<close> has the message that the
  requests library builds from the status code, the reason phrase and the address. The
  \<open>KeyError\<close> of a dictionary lookup shows the key in quotes.
\<close>

fun str_request_exception :: "request_exception \<Rightarrow> string" where
  "str_request_exception (ConnectionFailure m) = m"
| "str_request_exception (HTTPError code rsn u) =
     str_int code
     @ (if 400 \<le> code \<and> code < 500 then '' Client Error: '' else '' Server Error: '')
     @ rsn @ '' for url: '' @ u"

fun str_exception :: "exception \<Rightarrow> string" where
  "str_exception (RuntimeError m) = m"
| "str_exception (AttributeError m) = m"
| "str_exception (KeyError k) = [CHR 0x27] @ k @ [CHR 0x27]"

section \<open>Page fetcher\<close>

definition backoff_sleep :: "nat \<Rightarrow> world \<Rightarrow> world" where
  "backoff_sleep attempt w = w @ [Sleep (min (2 ^ attempt) 10)]"

definition do_get :: "env \<Rightarrow> string \<Rightarrow> world \<Rightarrow> http_result \<times> world" where
  "do_get env url w = (session_get env url (requests_made w), w @ [Get url])"

text \<open>\<open>resp.raise_for_status()\<close>: the \<open>HTTPError\<close> it raises, if any.\<close>

definition raise_for_status :: "response \<Rightarrow> request_exception option" where
  "raise_for_status resp =
     (if 400 \<le> status_code resp \<and> status_code resp < 600
      then Some (HTTPError (status_code resp) (reason resp) (resp_url resp))
      else None)"

text \<open>The message of the \<open>RuntimeError\<close> raised after the loop.\<close>

definition failed_to_load :: "string \<Rightarrow> request_exception option \<Rightarrow> exception" where
  "failed_to_load url last_exc =
     RuntimeError (''Failed to load '' @ url @ '': ''
       @ (case last_exc of None \<Rightarrow> ''None'' | Some e \<Rightarrow> str_request_exception e))"

text \<open>
  The body of \<open>for attempt in range(max_retries)\<close>, over the attempts still to make, with
  the current \<open>last_exc\<close>.
\<close>

fun get_soup_attempts ::
  "env \<Rightarrow> string \<Rightarrow> nat list \<Rightarrow> request_exception option \<Rightarrow> world \<Rightarrow> (exception + soup) \<times> world"
where
  "get_soup_attempts env url [] last_exc w = (Inl (failed_to_load url last_exc), w)"
| "get_soup_attempts env url (attempt # rest) last_exc w =
     (case do_get env url w of
        (Raises m, w1) \<Rightarrow>
          get_soup_attempts env url rest (Some (ConnectionFailure m)) (backoff_sleep attempt w1)
      | (Returns resp, w1) \<Rightarrow>
          if status_code resp = 429 \<or> (500 \<le> status_code resp \<and> status_code resp < 600)
          then get_soup_attempts env url rest last_exc (backoff_sleep attempt w1)
          else (case raise_for_status resp of
                  Some e \<Rightarrow> get_soup_attempts env url rest (Some e) (backoff_sleep attempt w1)
                | None \<Rightarrow> (Inr (html_parser env (resp_text resp)), w1)))"

definition get_soup :: "env \<Rightarrow> string \<Rightarrow> int \<Rightarrow> world \<Rightarrow> (exception + soup) \<times> world" where
  "get_soup env url max_retries w = get_soup_attempts env url [0..<nat max_retries] None w"

section \<open>List-page and detail-page extractors\<close>

definition opt_val :: "('a \<Rightarrow> pyval) \<Rightarrow> 'a option \<Rightarrow> pyval" where
  "opt_val f x = (case x of None \<Rightarrow> VNone | Some y \<Rightarrow> f y)"

text \<open>
  One iteration of the loop over the cards. \<open>a.get("title")\<close> on a card without an
  \<open>h3 a\<close> element raises \<open>AttributeError\<close>.
\<close>

definition parse_card :: "env \<Rightarrow> string \<Rightarrow> card \<Rightarrow> exception + dict" where
  "parse_card env base_url c =
     (case card_link c of
        None \<Rightarrow>
          Inl (AttributeError ([CHR 0x27] @ ''NoneType'' @ [CHR 0x27]
                 @ '' object has no attribute '' @ [CHR 0x27] @ ''get'' @ [CHR 0x27]))
      | Some a \<Rightarrow>
          let title = (case a_title a of
                         None \<Rightarrow> a_text a
                       | Some t \<Rightarrow> if t \<noteq> [] then t else a_text a);
              product_url = urljoin env base_url (a_href a)
          in Inr [(''title'', VStr title),
                  (''price'', opt_val VFloat
                     (parse_price (case price_text c of None \<Rightarrow> [] | Some t \<Rightarrow> t))),
                  (''rating'', opt_val VInt (parse_rating (rating_tag c))),
                  (''availability'', opt_val (\<lambda>t. VStr (join_space (split_ws [] t))) (avail_text c)),
                  (''product_url'', VStr product_url)])"

fun parse_cards :: "env \<Rightarrow> string \<Rightarrow> card list \<Rightarrow> exception + dict list" where
  "parse_cards env base_url [] = Inr []"
| "parse_cards env base_url (c # cs) =
     (case parse_card env base_url c of
        Inl e \<Rightarrow> Inl e
      | Inr it \<Rightarrow>
          (case parse_cards env base_url cs of
             Inl e \<Rightarrow> Inl e
           | Inr its \<Rightarrow> Inr (it # its)))"

definition parse_list_page :: "env \<Rightarrow> soup \<Rightarrow> string \<Rightarrow> exception + dict list" where
  "parse_list_page env sp base_url = parse_cards env base_url (cards sp)"

definition find_next_page :: "env \<Rightarrow> soup \<Rightarrow> string \<Rightarrow> string option" where
  "find_next_page env sp current_url =
     (case next_a sp of
        None \<Rightarrow> None
      | Some a \<Rightarrow> Some (urljoin env current_url (a_href a)))"

text \<open>The loop over the rows of the attribute table, building \<open>details\<close>.\<close>

fun table_details :: "dict \<Rightarrow> table_row list \<Rightarrow> dict" where
  "table_details details [] = details"
| "table_details details (row # rest) =
     (case (th_text row, td_text row) of
        (Some th, Some td) \<Rightarrow>
          table_details (dict_set details (replace_char CHR '' '' CHR ''_'' (lower th)) (VStr td)) rest
      | _ \<Rightarrow> table_details details rest)"

definition details_of_soup :: "env \<Rightarrow> string \<Rightarrow> soup \<Rightarrow> dict" where
  "details_of_soup env product_url sp =
     (let category = (if length (crumbs sp) \<ge> 3 then VStr (last (crumbs sp)) else VNone);
          description = (case description_header sp of
                           None \<Rightarrow> VNone
                         | Some p \<Rightarrow> opt_val VStr p);
          details = (case table_rows sp of
                       None \<Rightarrow> []
                     | Some rows \<Rightarrow> table_details [] rows);
          im = (case active_img sp of Some i \<Rightarrow> Some i | None \<Rightarrow> first_img sp);
          image_url = (case im of
                         None \<Rightarrow> VNone
                       | Some i \<Rightarrow>
                           (case img_src i of
                              None \<Rightarrow> VNone
                            | Some s \<Rightarrow>
                                if s \<noteq> [] then VStr (urljoin env product_url (Some s)) else VNone))
      in dict_update
           [(''category'', category), (''description'', description), (''image_url'', image_url)]
           details)"

definition parse_details :: "env \<Rightarrow> string \<Rightarrow> world \<Rightarrow> (exception + dict) \<times> world" where
  "parse_details env product_url w =
     (case get_soup env product_url 3 w of
        (Inl e, w') \<Rightarrow> (Inl e, w')
      | (Inr sp, w') \<Rightarrow> (Inr (details_of_soup env product_url sp), w'))"

section \<open>Crawl orchestrator\<close>

text \<open>
  The body of \<open>for it in items\<close> under \<open>with_details\<close>: the \<open>try\<close> block and its handler.
  \<open>parse_list_page\<close> stores a string under \<open>product_url\<close> in every item; an item without
  such an entry takes the handler with the \<open>KeyError\<close> of the lookup.
\<close>

definition detail_item :: "env \<Rightarrow> dict \<Rightarrow> world \<Rightarrow> dict \<times> world" where
  "detail_item env it w =
     (case dict_get it ''product_url'' of
        Some (VStr u) \<Rightarrow>
          (case parse_details env u w of
             (Inr extra, w') \<Rightarrow> (dict_update it extra, w')
           | (Inl e, w') \<Rightarrow> (dict_set it ''details_error'' (VStr (str_exception e)), w'))
      | _ \<Rightarrow> (dict_set it ''details_error'' (VStr (str_exception (KeyError ''product_url''))), w))"

fun detail_items :: "env \<Rightarrow> dict list \<Rightarrow> world \<Rightarrow> dict list \<times> world" where
  "detail_items env [] w = ([], w)"
| "detail_items env (it # its) w =
     (case detail_item env it w of
        (it', w') \<Rightarrow>
          (case detail_items env its w' of
             (its', w'') \<Rightarrow> (it' # its', w'')))"

text \<open>
  The \<open>while url:\<close> loop with its variables \<open>url\<close>, \<open>page\<close> and \<open>rows\<close>. It yields the
  exception that left the loop or the accumulated rows, with the final value of \<open>page\<close> and
  the world; \<open>None\<close> when the loop runs forever.
\<close>

partial_function (option) scrape_loop ::
  "env \<Rightarrow> int option \<Rightarrow> bool \<Rightarrow> string option \<Rightarrow> nat \<Rightarrow> dict list \<Rightarrow> world
     \<Rightarrow> ((exception + dict list) \<times> nat \<times> world) option"
where
  "scrape_loop env max_pages with_details url page rows w =
     (case url of
        None \<Rightarrow> Some (Inr rows, page, w)
      | Some u \<Rightarrow>
          if u = [] then Some (Inr rows, page, w)
          else
            (case get_soup env u 3 w of
               (Inl e, w1) \<Rightarrow> Some (Inl e, Suc page, w1)
             | (Inr sp, w1) \<Rightarrow>
                 (case parse_list_page env sp u of
                    Inl e \<Rightarrow> Some (Inl e, Suc page, w1)
                  | Inr items \<Rightarrow>
                      (case (if with_details then detail_items env items w1 else (items, w1)) of
                         (items', w2) \<Rightarrow>
                           if (case max_pages of
                                 None \<Rightarrow> False
                               | Some m \<Rightarrow> m \<noteq> 0 \<and> int (Suc page) \<ge> m)
                           then Some (Inr (rows @ items'), Suc page, w2)
                           else scrape_loop env max_pages with_details
                                  (find_next_page env sp u) (Suc page) (rows @ items') w2))))"

declare scrape_loop.simps [code]

section \<open>Result assembler\<close>

text \<open>
  \<open>pd.DataFrame(rows)\<close>: the columns are the keys of the rows in first-seen order; a
  record without an entry for a column holds NaN there. \<open>df.empty\<close> holds when there is no
  record or no column.
\<close>

definition first_seen :: "'a list \<Rightarrow> 'a list" where
  "first_seen xs = rev (remdups (rev xs))"

definition DataFrame :: "dict list \<Rightarrow> dataframe" where
  "DataFrame rows = \<lparr>columns = first_seen (concat (map dict_keys rows)), records = rows\<rparr>"

definition df_empty :: "dataframe \<Rightarrow> bool" where
  "df_empty df = (records df = [] \<or> columns df = [])"

text \<open>
  \<open>drop_duplicates(subset=[col])\<close> with the default \<open>keep="first"\<close>: \<open>seen\<close> holds the
  values of the column met so far.
\<close>

fun drop_duplicates :: "string \<Rightarrow> pyval option list \<Rightarrow> dict list \<Rightarrow> dict list" where
  "drop_duplicates col seen [] = []"
| "drop_duplicates col seen (r # rs) =
     (if dict_get r col \<in> set seen then drop_duplicates col seen rs
      else r # drop_duplicates col (dict_get r col # seen) rs)"

definition preferred :: "string list" where
  "preferred = [''title'', ''price'', ''rating'', ''availability'', ''category'', ''product_url'',
     ''description'', ''image_url'']"

text \<open>The end of \<open>scrape\<close>, from \<open>df = pd.DataFrame(rows)\<close> on.\<close>

definition assemble :: "dict list \<Rightarrow> exception + dataframe" where
  "assemble rows =
     (let df = DataFrame rows
      in if df_empty df then Inr df
         else if ''product_url'' \<notin> set (columns df) then Inl (KeyError ''product_url'')
         else
           let recs = drop_duplicates ''product_url'' [] (records df);
               cols = filter (\<lambda>c. c \<in> set (columns df)) preferred
                      @ filter (\<lambda>c. c \<notin> set preferred) (columns df)
           in Inr \<lparr>columns = cols, records = recs\<rparr>)"

definition scrape ::
  "env \<Rightarrow> string \<Rightarrow> int option \<Rightarrow> bool \<Rightarrow> world \<Rightarrow> ((exception + dataframe) \<times> world) option"
where
  "scrape env start_url max_pages with_details w =
     (case scrape_loop env max_pages with_details (Some start_url) 0 [] w of
        None \<Rightarrow> None
      | Some (Inl e, page, w') \<Rightarrow> Some (Inl e, w')
      | Some (Inr rows, page, w') \<Rightarrow> Some (assemble rows, w'))"

section \<open>Entry point\<close>

record args =
  arg_start_url :: string
  arg_max_pages :: int
  arg_details :: bool
  arg_output :: string

text \<open>
  \<open>main\<close> after argument parsing. The result is the uncaught exception, if any, and the
  world; \<open>None\<close> when the crawl runs forever. The export is the event \<open>ToCsv\<close> or
  \<open>ToExcel\<close> with the destination and the frame.
\<close>

definition main :: "env \<Rightarrow> args \<Rightarrow> world \<Rightarrow> (exception option \<times> world) option" where
  "main env a w =
     (let max_pages = (if arg_max_pages a = 0 then None else Some (arg_max_pages a))
      in case scrape env (arg_start_url a) max_pages (arg_details a) w of
           None \<Rightarrow> None
         | Some (Inl e, w') \<Rightarrow> Some (Some e, w')
         | Some (Inr df, w') \<Rightarrow>
             if df_empty df then Some (None, w' @ [Print ''No data collected.''])
             else
               let w'' = (if endswith (lower (arg_output a)) ''.csv''
                          then w' @ [ToCsv (arg_output a) df]
                          else w' @ [ToExcel (arg_output a) df])
               in Some (None, w'' @ [Print (''Saved '' @ str_nat (length (records df))
                                      @ '' records '' @ [CHR 0xE2, CHR 0x86, CHR 0x92] @ '' ''
                                      @ arg_output a)]))"

section \<open>Specification-side notions\<close>

text \<open>
  \<open>first_numeric_token s t\<close>: \<open>t\<close> is the first token of the shape \<open>digits[.digits]\<close> in
  \<open>s\<close>. No digit stands before it, it starts with a maximal run of digits, and it takes a
  period and a maximal run of digits when the run of digits is followed by both.
\<close>

definition first_numeric_token :: "string \<Rightarrow> string \<Rightarrow> bool" where
  "first_numeric_token s t =
     (\<exists>pre ds fr post.
        s = pre @ ds @ fr @ post \<and> t = ds @ fr
        \<and> (\<forall>c \<in> set pre. \<not> is_digit c)
        \<and> ds \<noteq> [] \<and> (\<forall>c \<in> set ds. is_digit c)
        \<and> ((fr = [] \<and> \<not> (\<exists>d r. post = CHR ''.'' # d # r \<and> is_digit d))
             \<or> (\<exists>fs. fr = CHR ''.'' # fs \<and> fs \<noteq> [] \<and> (\<forall>c \<in> set fs. is_digit c)))
        \<and> \<not> (\<exists>d r. post = d # r \<and> is_digit d))"

text \<open>The five rank tokens and their ranks, case-sensitive.\<close>

definition rank_token :: "string \<Rightarrow> int option" where
  "rank_token c =
     (if c = ''One'' then Some 1 else if c = ''Two'' then Some 2 else if c = ''Three'' then Some 3
      else if c = ''Four'' then Some 4 else if c = ''Five'' then Some 5 else None)"

text \<open>
  The entries of the attribute table in row order: one for each row that has both a header
  cell and a data cell, under the lower-cased header with blanks replaced by underscores.
\<close>

fun table_entries :: "table_row list \<Rightarrow> dict" where
  "table_entries [] = []"
| "table_entries (row # rest) =
     (case (th_text row, td_text row) of
        (Some th, Some td) \<Rightarrow>
          (replace_char CHR '' '' CHR ''_'' (lower th), VStr td) # table_entries rest
      | _ \<Rightarrow> table_entries rest)"

text \<open>A status code of the class 4xx other than 429, and the error raised for it.\<close>

definition client_error :: "response \<Rightarrow> bool" where
  "client_error resp =
     (400 \<le> status_code resp \<and> status_code resp < 500 \<and> status_code resp \<noteq> 429)"

definition http_error_of :: "response \<Rightarrow> request_exception" where
  "http_error_of resp = HTTPError (status_code resp) (reason resp) (resp_url resp)"

text \<open>The requests and sleeps of \<open>n\<close> failed attempts, the first of them numbered \<open>a\<close>.\<close>

definition retry_trace :: "string \<Rightarrow> nat \<Rightarrow> nat \<Rightarrow> event list" where
  "retry_trace url a n = concat (map (\<lambda>k. [Get url, Sleep (min (2 ^ k) 10)]) [a..<a + n])"

text \<open>
  An attempt fails when the request raises or the response has a status from 400 to 599.
\<close>

definition attempt_fails :: "http_result \<Rightarrow> bool" where
  "attempt_fails r =
     (case r of
        Raises m \<Rightarrow> True
      | Returns resp \<Rightarrow> 400 \<le> status_code resp \<and> status_code resp < 600)"

section \<open>A small catalogue used in the examples\<close>

text \<open>
  Two list pages and two products. The first list page has two cards and a next link,
  the second has one card whose link is that of the first card of the first page.
  The detail page of the first product carries an attribute table, the one of the second
  product answers 404, a further list page has no card and no next link, and every other
  address answers 503.
\<close>

definition empty_soup :: soup where
  "empty_soup =
     \<lparr>cards = [], next_a = None, crumbs = [], description_header = None, table_rows = None,
      active_img = None, first_img = None\<rparr>"

definition demo_card :: "string \<Rightarrow> string \<Rightarrow> string \<Rightarrow> string \<Rightarrow> card" where
  "demo_card name href price rating =
     \<lparr>card_link = Some \<lparr>a_title = Some name, a_text = name, a_href = Some href\<rparr>,
      price_text = Some price,
      rating_tag = Some \<lparr>tag_class = Some [''star-rating'', rating]\<rparr>,
      avail_text = Some ''In stock''\<rparr>"

definition demo_parser :: "string \<Rightarrow> soup" where
  "demo_parser body =
     (if body = ''list-1'' then
        empty_soup\<lparr>cards := [demo_card ''A'' ''a.html'' ''51.77'' ''Three'',
                              demo_card ''B'' ''b.html'' ''53,74'' ''One''],
                    next_a := Some \<lparr>a_title = None, a_text = ''next'', a_href = Some ''page-2.html''\<rparr>\<rparr>
      else if body = ''list-2'' then
        empty_soup\<lparr>cards := [demo_card ''A again'' ''a.html'' ''50.10'' ''Five'']\<rparr>
      else if body = ''detail-a'' then
        empty_soup\<lparr>crumbs := [''Home'', ''Books'', ''Poetry''],
                    description_header := Some (Some ''A book.''),
                    table_rows := Some [\<lparr>th_text = Some ''UPC'', td_text = Some ''a897''\<rparr>,
                                        \<lparr>th_text = Some ''Title'', td_text = Some ''A (full)''\<rparr>,
                                        \<lparr>th_text = Some ''Price (excl. tax)'', td_text = Some ''51.77''\<rparr>],
                    first_img := Some \<lparr>img_src = Some ''a.jpg''\<rparr>\<rparr>
      else empty_soup)"

definition demo_response :: "int \<Rightarrow> string \<Rightarrow> string \<Rightarrow> string \<Rightarrow> http_result" where
  "demo_response code rsn url body =
     Returns \<lparr>status_code = code, reason = rsn, resp_url = url, resp_text = body\<rparr>"

definition demo_get :: "string \<Rightarrow> nat \<Rightarrow> http_result" where
  "demo_get url n =
     (if url = ''http://s/page-1.html'' then demo_response 200 ''OK'' url ''list-1''
      else if url = ''http://s/page-2.html'' then demo_response 200 ''OK'' url ''list-2''
      else if url = ''http://s/a.html'' then demo_response 200 ''OK'' url ''detail-a''
      else if url = ''http://s/b.html'' then demo_response 404 ''Not Found'' url ''''
      else if url = ''http://s/empty.html'' then demo_response 200 ''OK'' url ''list-empty''
      else demo_response 503 ''Service Unavailable'' url '''')"

definition demo_env :: env where
  "demo_env =
     \<lparr>session_get = demo_get,
      html_parser = demo_parser,
      urljoin = (\<lambda>base href. case href of None \<Rightarrow> base | Some h \<Rightarrow> ''http://s/'' @ h)\<rparr>"

text \<open>The items of the three cards.\<close>

definition demo_item_a :: dict where
  "demo_item_a = [(''title'', VStr ''A''), (''price'', VFloat (5177 / 100)), (''rating'', VInt 3),
     (''availability'', VStr ''In stock''), (''product_url'', VStr ''http://s/a.html'')]"

definition demo_item_b :: dict where
  "demo_item_b = [(''title'', VStr ''B''), (''price'', VFloat (2687 / 50)), (''rating'', VInt 1),
     (''availability'', VStr ''In stock''), (''product_url'', VStr ''http://s/b.html'')]"

definition demo_item_a2 :: dict where
  "demo_item_a2 = [(''title'', VStr ''A again''), (''price'', VFloat (501 / 10)), (''rating'', VInt 5),
     (''availability'', VStr ''In stock''), (''product_url'', VStr ''http://s/a.html'')]"

section \<open>Properties of the field parsers\<close>

lemma not_digit_dot: "\<not> is_digit CHR ''.''"
  by (simp add: is_digit_def)

lemma takeWhile_digits: "\<forall>c \<in> set (takeWhile is_digit s). is_digit c"
  by (auto dest: set_takeWhileD)

lemma dropWhile_no_digit_head: "\<not> (\<exists>d r. dropWhile is_digit s = d # r \<and> is_digit d)"
  by (metis hd_dropWhile list.sel(1) list.distinct(1))

lemma match_fraction_split:
  "\<exists>post. s = match_fraction s @ post
     \<and> ((match_fraction s = [] \<and> \<not> (\<exists>d r. post = CHR ''.'' # d # r \<and> is_digit d))
          \<or> (\<exists>fs. match_fraction s = CHR ''.'' # fs \<and> fs \<noteq> [] \<and> (\<forall>c \<in> set fs. is_digit c)
                \<and> \<not> (\<exists>d r. post = d # r \<and> is_digit d)))"
proof (cases s)
  case Nil
  then show ?thesis by (simp add: match_fraction_def)
next
  case (Cons c r)
  show ?thesis
  proof (cases "c = CHR ''.'' \<and> takeWhile is_digit r \<noteq> []")
    case True
    have "s = match_fraction s @ dropWhile is_digit r"
      using Cons True by (simp add: match_fraction_def)
    moreover have "match_fraction s = CHR ''.'' # takeWhile is_digit r"
      using Cons True by (simp add: match_fraction_def)
    ultimately show ?thesis
      using True takeWhile_digits[of r] dropWhile_no_digit_head[of r] by blast
  next
    case False
    then have mf: "match_fraction s = []"
      using Cons by (auto simp: match_fraction_def)
    have "\<not> (\<exists>d r'. s = CHR ''.'' # d # r' \<and> is_digit d)"
      using False Cons by auto
    then show ?thesis using mf by simp
  qed
qed

lemma re_match_number_token:
  assumes "re_match_number s = Some t"
  shows "first_numeric_token s t"
proof -
  let ?ds = "takeWhile is_digit s"
  let ?rest = "dropWhile is_digit s"
  from assms have ne: "?ds \<noteq> []" and t: "t = ?ds @ match_fraction ?rest"
    by (auto simp: re_match_number_def Let_def split: if_splits)
  obtain post where post: "?rest = match_fraction ?rest @ post"
    and shape: "(match_fraction ?rest = [] \<and> \<not> (\<exists>d r. post = CHR ''.'' # d # r \<and> is_digit d))
          \<or> (\<exists>fs. match_fraction ?rest = CHR ''.'' # fs \<and> fs \<noteq> [] \<and> (\<forall>c \<in> set fs. is_digit c)
                \<and> \<not> (\<exists>d r. post = d # r \<and> is_digit d))"
    using match_fraction_split[of ?rest] by blast
  have nd: "\<not> (\<exists>d r. post = d # r \<and> is_digit d)"
  proof (cases "match_fraction ?rest = []")
    case True
    then have "post = ?rest" using post by simp
    then show ?thesis using dropWhile_no_digit_head[of s] by simp
  next
    case False
    then show ?thesis using shape by blast
  qed
  have s: "s = [] @ ?ds @ match_fraction ?rest @ post"
    using post by (metis append_Nil takeWhile_dropWhile_id)
  show ?thesis
    unfolding first_numeric_token_def
    apply (rule exI[of _ "[]"], rule exI[of _ ?ds], rule exI[of _ "match_fraction ?rest"], rule exI[of _ post])
    using s t ne takeWhile_digits[of s] shape nd by auto
qed

lemma first_numeric_token_Cons:
  "\<not> is_digit c \<Longrightarrow> first_numeric_token s t \<Longrightarrow> first_numeric_token (c # s) t"
  unfolding first_numeric_token_def
  apply (elim exE conjE)
  subgoal for pre ds fr post
    apply (rule exI[of _ "c # pre"], rule exI[of _ ds], rule exI[of _ fr], rule exI[of _ post])
    by auto
  done

lemma re_match_number_None: "re_match_number (c # cs) = None \<longleftrightarrow> \<not> is_digit c"
  by (auto simp: re_match_number_def Let_def)

lemma re_search_number_token:
  "re_search_number s = Some t \<Longrightarrow> first_numeric_token s t"
proof (induction s)
  case Nil
  then show ?case by simp
next
  case (Cons c cs)
  show ?case
  proof (cases "re_match_number (c # cs)")
    case None
    then have "re_search_number cs = Some t" using Cons.prems by simp
    then show ?thesis using Cons.IH None first_numeric_token_Cons re_match_number_None by blast
  next
    case (Some t')
    then show ?thesis using Cons.prems re_match_number_token by auto
  qed
qed

lemma re_search_number_None:
  "re_search_number s = None \<longleftrightarrow> (\<forall>c \<in> set s. \<not> is_digit c)"
proof (induction s)
  case Nil
  then show ?case by simp
next
  case (Cons c cs)
  show ?case
  proof (cases "re_match_number (c # cs)")
    case None
    then show ?thesis using Cons.IH re_match_number_None[of c cs] by simp
  next
    case (Some t)
    then have "is_digit c" using re_match_number_None[of c cs] by auto
    then show ?thesis using Some by auto
  qed
qed

lemma replace_comma_digit:
  "(\<exists>c \<in> set (replace_char CHR '','' CHR ''.'' s). is_digit c) \<longleftrightarrow> (\<exists>c \<in> set s. is_digit c)"
  by (induction s) (auto simp: replace_char_def is_digit_def)

lemma re_search_number_skip:
  "\<forall>c \<in> set pre. \<not> is_digit c \<Longrightarrow> re_search_number (pre @ r) = re_search_number r"
proof (induction pre)
  case Nil
  then show ?case by simp
next
  case (Cons c pre)
  then have "re_match_number (c # pre @ r) = None"
    using re_match_number_None[of c "pre @ r"] by simp
  then show ?case using Cons by simp
qed

lemma digits_then_rest:
  assumes "\<forall>c \<in> set ds. is_digit c" and "\<not> (\<exists>d r. rest = d # r \<and> is_digit d)"
  shows "takeWhile is_digit (ds @ rest) = ds \<and> dropWhile is_digit (ds @ rest) = rest"
proof -
  have "takeWhile is_digit rest = []" "dropWhile is_digit rest = rest"
    using assms(2) by (cases rest; simp)+
  then show ?thesis using assms(1) by (simp add: takeWhile_append2 dropWhile_append2)
qed

lemma first_numeric_token_search_parts:
  assumes s: "s = pre @ ds @ fr @ post" and t: "t = ds @ fr"
    and pre: "\<forall>c \<in> set pre. \<not> is_digit c"
    and ds1: "ds \<noteq> []" and ds2: "\<forall>c \<in> set ds. is_digit c"
    and fr: "(fr = [] \<and> \<not> (\<exists>d r. post = CHR ''.'' # d # r \<and> is_digit d))
             \<or> (\<exists>fs. fr = CHR ''.'' # fs \<and> fs \<noteq> [] \<and> (\<forall>c \<in> set fs. is_digit c))"
    and post: "\<not> (\<exists>d r. post = d # r \<and> is_digit d)"
  shows "re_search_number s = Some t"
proof -
  have nd: "\<not> (\<exists>d r. fr @ post = d # r \<and> is_digit d)"
  proof (cases "fr = []")
    case True
    then show ?thesis using post by simp
  next
    case False
    then obtain fs where "fr = CHR ''.'' # fs" using fr by blast
    then show ?thesis using not_digit_dot by auto
  qed
  have tw: "takeWhile is_digit (ds @ fr @ post) = ds" "dropWhile is_digit (ds @ fr @ post) = fr @ post"
    using digits_then_rest[OF ds2 nd] by simp_all
  have mf: "match_fraction (fr @ post) = fr"
  proof (cases "fr = []")
    case True
    then have "\<not> (\<exists>d r. post = CHR ''.'' # d # r \<and> is_digit d)" using fr by auto
    then have "match_fraction post = []"
    proof (cases post)
      case Nil
      then show ?thesis by (simp add: match_fraction_def)
    next
      case (Cons c r)
      assume a: "\<not> (\<exists>d r. post = CHR ''.'' # d # r \<and> is_digit d)"
      show ?thesis
      proof (cases r)
        case Nil
        then show ?thesis using Cons by (simp add: match_fraction_def)
      next
        case (Cons d r')
        then have "c = CHR ''.'' \<Longrightarrow> \<not> is_digit d" using a \<open>post = c # r\<close> by blast
        then show ?thesis using Cons \<open>post = c # r\<close> by (simp add: match_fraction_def)
      qed
    qed
    then show ?thesis using True by simp
  next
    case False
    then obtain fs where fs: "fr = CHR ''.'' # fs" "fs \<noteq> []" "\<forall>c \<in> set fs. is_digit c"
      using fr by auto
    have "takeWhile is_digit (fs @ post) = fs"
      using digits_then_rest[OF fs(3) post] by simp
    then show ?thesis using fs by (simp add: match_fraction_def)
  qed
  have "re_match_number (ds @ fr @ post) = Some (ds @ fr)"
    using tw mf ds1 by (simp add: re_match_number_def)
  moreover obtain d ds' where "ds = d # ds'" using ds1 by (cases ds) auto
  ultimately have "re_search_number (ds @ fr @ post) = Some (ds @ fr)"
    by simp
  then show ?thesis using re_search_number_skip[OF pre] s t by simp
qed

lemma first_numeric_token_search:
  "first_numeric_token s t \<Longrightarrow> re_search_number s = Some t"
  unfolding first_numeric_token_def
  by (elim exE conjE) (rule first_numeric_token_search_parts; assumption)

text \<open>
  Claim C6. \<open>parse_price\<close> is a function of its argument alone. After commas have
  been replaced by periods, it returns the value of the first token of the shape
  \<open>digits[.digits]\<close>; it returns nothing when there is no such token, and on the empty
  input. The texts \<open>19.99\<close>, \<open>19,99\<close> and \<open>19.99\<close> after a pound sign all give 19.99.
\<close>

theorem parse_price_first_token:
  "(\<forall>t. first_numeric_token (replace_char CHR '','' CHR ''.'' s) t \<longrightarrow>
          parse_price s = Some (py_float t))
   \<and> ((\<nexists>t. first_numeric_token (replace_char CHR '','' CHR ''.'' s) t) \<longrightarrow> parse_price s = None)
   \<and> parse_price [] = None
   \<and> parse_price ''19.99'' = Some (1999 / 100)
   \<and> parse_price ''19,99'' = Some (1999 / 100)
   \<and> parse_price ([CHR 0xC2, CHR 0xA3] @ ''19.99'') = Some (1999 / 100)"
proof (intro conjI allI impI)
  fix t assume tok: "first_numeric_token (replace_char CHR '','' CHR ''.'' s) t"
  then have "re_search_number (replace_char CHR '','' CHR ''.'' s) = Some t"
    by (rule first_numeric_token_search)
  moreover have "s \<noteq> []"
    using tok by (auto simp: first_numeric_token_def replace_char_def)
  ultimately show "parse_price s = Some (py_float t)"
    by (simp add: parse_price_def)
next
  assume none: "\<nexists>t. first_numeric_token (replace_char CHR '','' CHR ''.'' s) t"
  show "parse_price s = None"
  proof (cases "re_search_number (replace_char CHR '','' CHR ''.'' s)")
    case None
    then show ?thesis by (simp add: parse_price_def)
  next
    case (Some t)
    then show ?thesis using none re_search_number_token by blast
  qed
next
  show "parse_price [] = None"
    by (simp add: parse_price_def)
  show "parse_price ''19.99'' = Some (1999 / 100)"
    by (simp add: parse_price_def replace_char_def re_match_number_def match_fraction_def
        is_digit_def py_float_def int_of_digits_def digit_val_def)
  show "parse_price ''19,99'' = Some (1999 / 100)"
    by (simp add: parse_price_def replace_char_def re_match_number_def match_fraction_def
        is_digit_def py_float_def int_of_digits_def digit_val_def)
  show "parse_price ([CHR 0xC2, CHR 0xA3] @ ''19.99'') = Some (1999 / 100)"
    by (simp add: parse_price_def replace_char_def re_match_number_def match_fraction_def
        is_digit_def py_float_def int_of_digits_def digit_val_def)
qed

lemma first_numeric_token_example:
  "first_numeric_token ''a 12.50 b 7'' ''12.50''"
  unfolding first_numeric_token_def
  apply (rule exI[of _ "''a ''"], rule exI[of _ "''12''"], rule exI[of _ "''.50''"], rule exI[of _ "'' b 7''"])
  by (simp add: is_digit_def)

theorem parse_price_first_token_witness:
  "first_numeric_token (replace_char CHR '','' CHR ''.'' ''a 12,50 b 7'') ''12.50''
   \<and> parse_price ''a 12,50 b 7'' = Some (25 / 2)
   \<and> (\<nexists>t. first_numeric_token (replace_char CHR '','' CHR ''.'' ''n/a'') t)
   \<and> parse_price ''n/a'' = None"
proof -
  have tok: "first_numeric_token (replace_char CHR '','' CHR ''.'' ''a 12,50 b 7'') ''12.50''"
    using first_numeric_token_example by (simp add: replace_char_def)
  have "parse_price ''a 12,50 b 7'' = Some (py_float ''12.50'')"
    using parse_price_first_token[of "''a 12,50 b 7''"] tok by blast
  then have p: "parse_price ''a 12,50 b 7'' = Some (25 / 2)"
    by (simp add: py_float_def is_digit_def int_of_digits_def digit_val_def)
  have no: "\<nexists>t. first_numeric_token (replace_char CHR '','' CHR ''.'' ''n/a'') t"
  proof
    assume "\<exists>t. first_numeric_token (replace_char CHR '','' CHR ''.'' ''n/a'') t"
    then obtain t where "re_search_number (replace_char CHR '','' CHR ''.'' ''n/a'') = Some t"
      using first_numeric_token_search by blast
    then show False
      by (simp add: replace_char_def re_match_number_def is_digit_def)
  qed
  then have "parse_price ''n/a'' = None"
    using parse_price_first_token[of "''n/a''"] by blast
  then show ?thesis using tok p no by blast
qed

lemma map_of_mapping: "map_of mapping c = rank_token c"
  by (simp add: mapping_def rank_token_def)

lemma rating_of_classes_find:
  "rating_of_classes cs =
     (case List.find (\<lambda>c. rank_token c \<noteq> None) cs of None \<Rightarrow> None | Some c \<Rightarrow> rank_token c)"
  by (induction cs) (auto simp: map_of_mapping split: option.splits)

lemma rank_token_range: "rank_token c = Some n \<Longrightarrow> n \<in> {1, 2, 3, 4, 5}"
  by (auto simp: rank_token_def split: if_splits)

lemma rating_of_classes_range: "rating_of_classes cs = Some n \<Longrightarrow> n \<in> {1, 2, 3, 4, 5}"
  by (induction cs) (auto simp: map_of_mapping dest: rank_token_range split: option.splits)

text \<open>
  Claim C7. \<open>parse_rating\<close> returns an integer from 1 to 5 or nothing. Without an element
  it returns nothing; with one, it returns the rank of the first of the element's classes
  that is one of the tokens \<open>One\<close> to \<open>Five\<close>, and nothing when no class is.
\<close>

theorem parse_rating_closed:
  "(parse_rating t = None \<or> (\<exists>n \<in> {1, 2, 3, 4, 5}. parse_rating t = Some n))
   \<and> parse_rating None = None
   \<and> (\<forall>tg. t = Some tg \<longrightarrow>
         parse_rating t =
           (case List.find (\<lambda>c. rank_token c \<noteq> None) (case tag_class tg of None \<Rightarrow> [] | Some cs \<Rightarrow> cs) of
              None \<Rightarrow> None
            | Some c \<Rightarrow> rank_token c))"
proof (intro conjI allI impI)
  show "parse_rating t = None \<or> (\<exists>n \<in> {1, 2, 3, 4, 5}. parse_rating t = Some n)"
  proof (cases "parse_rating t")
    case None
    then show ?thesis by simp
  next
    case (Some n)
    then have "n \<in> {1, 2, 3, 4, 5}"
      by (auto simp: parse_rating_def split: option.splits dest: rating_of_classes_range)
    then show ?thesis using Some by blast
  qed
  show "parse_rating None = None"
    by (simp add: parse_rating_def)
next
  fix tg assume "t = Some tg"
  then show "parse_rating t =
           (case List.find (\<lambda>c. rank_token c \<noteq> None) (case tag_class tg of None \<Rightarrow> [] | Some cs \<Rightarrow> cs) of
              None \<Rightarrow> None
            | Some c \<Rightarrow> rank_token c)"
    by (simp add: parse_rating_def rating_of_classes_find)
qed

theorem parse_rating_closed_witness:
  "parse_rating (Some \<lparr>tag_class = Some [''star-rating'', ''Three'']\<rparr>) = Some 3
   \<and> parse_rating (Some \<lparr>tag_class = Some [''star-rating'', ''three'']\<rparr>) = None
   \<and> parse_rating (Some \<lparr>tag_class = None\<rparr>) = None"
proof -
  have a: "parse_rating (Some \<lparr>tag_class = Some [''star-rating'', ''Three'']\<rparr>) = Some 3"
    using parse_rating_closed[of "Some \<lparr>tag_class = Some [''star-rating'', ''Three'']\<rparr>"]
    by (simp add: rank_token_def)
  have b: "parse_rating (Some \<lparr>tag_class = Some [''star-rating'', ''three'']\<rparr>) = None"
    using parse_rating_closed[of "Some \<lparr>tag_class = Some [''star-rating'', ''three'']\<rparr>"]
    by (simp add: rank_token_def)
  have c: "parse_rating (Some \<lparr>tag_class = None\<rparr>) = None"
    using parse_rating_closed[of "Some \<lparr>tag_class = None\<rparr>"]
    by simp
  show ?thesis using a b c by simp
qed

section \<open>Properties of the page fetcher\<close>

lemmas demo_simps = demo_env_def demo_get_def demo_parser_def demo_response_def demo_card_def
  empty_soup_def

lemmas fetch_simps = get_soup_def do_get_def requests_made_def backoff_sleep_def raise_for_status_def
  failed_to_load_def str_int_def upt_rec[of _ "numeral _"] upt_rec[of 0]

lemma requests_made_append: "requests_made (w @ v) = requests_made w + requests_made v"
  by (simp add: requests_made_def)

lemma requests_made_step [simp]: "requests_made (backoff_sleep a (w @ [Get url])) = Suc (requests_made w)"
  by (simp add: requests_made_def backoff_sleep_def)

lemma upt_range_Suc: "[a..<a + Suc n] = a # [Suc a..<Suc a + n]"
  by (simp add: upt_conv_Cons)

lemma retry_trace_Suc: "retry_trace url a (Suc n) = [Get url, Sleep (min (2 ^ a) 10)] @ retry_trace url (Suc a) n"
  unfolding retry_trace_def upt_range_Suc by simp

lemma get_soup_attempts_client_error_step:
  assumes "session_get env url (requests_made w) = Returns resp" and "client_error resp"
  shows "get_soup_attempts env url (a # rest) last_exc w =
           get_soup_attempts env url rest (Some (http_error_of resp)) (w @ [Get url, Sleep (min (2 ^ a) 10)])"
  using assms
  by (simp add: do_get_def client_error_def raise_for_status_def http_error_of_def backoff_sleep_def)

lemma get_soup_attempts_client_errors:
  assumes "\<forall>k < n. \<exists>resp. session_get env url (requests_made w + k) = Returns resp \<and> client_error resp"
  shows "\<exists>last'. get_soup_attempts env url [a..<a + n] last_exc w =
            (Inl (failed_to_load url last'), w @ retry_trace url a n)
          \<and> (if n = 0 then last' = last_exc
              else \<exists>resp. session_get env url (requests_made w + (n - 1)) = Returns resp
                     \<and> last' = Some (http_error_of resp))"
  using assms
proof (induction n arbitrary: a w last_exc)
  case 0
  then show ?case by (simp add: retry_trace_def)
next
  case (Suc n)
  from Suc.prems obtain resp where r: "session_get env url (requests_made w) = Returns resp" "client_error resp"
    by (metis add.right_neutral zero_less_Suc)
  let ?w = "w @ [Get url, Sleep (min (2 ^ a) 10)]"
  have rm: "requests_made ?w = Suc (requests_made w)"
    by (simp add: requests_made_def)
  have step: "get_soup_attempts env url [a..<a + Suc n] last_exc w =
           get_soup_attempts env url [Suc a..<Suc a + n] (Some (http_error_of resp)) ?w"
    unfolding upt_range_Suc by (rule get_soup_attempts_client_error_step[OF r])
  have "\<forall>k < n. \<exists>resp. session_get env url (requests_made ?w + k) = Returns resp \<and> client_error resp"
  proof (intro allI impI)
    fix k assume "k < n"
    then have "Suc k < Suc n" by simp
    then show "\<exists>resp. session_get env url (requests_made ?w + k) = Returns resp \<and> client_error resp"
      using Suc.prems rm by (metis add_Suc_shift)
  qed
  from Suc.IH[OF this, of "Suc a" "Some (http_error_of resp)"] obtain last' where
    ih: "get_soup_attempts env url [Suc a..<Suc a + n] (Some (http_error_of resp)) ?w =
            (Inl (failed_to_load url last'), ?w @ retry_trace url (Suc a) n)"
    and l: "if n = 0 then last' = Some (http_error_of resp)
              else \<exists>resp. session_get env url (requests_made ?w + (n - 1)) = Returns resp
                     \<and> last' = Some (http_error_of resp)"
    by blast
  have lst: "\<exists>resp'. session_get env url (requests_made w + (Suc n - 1)) = Returns resp'
                     \<and> last' = Some (http_error_of resp')"
  proof (cases "n = 0")
    case True
    then show ?thesis using l r by simp
  next
    case False
    then show ?thesis using l rm by (cases n) auto
  qed
  have full: "get_soup_attempts env url [a..<a + Suc n] last_exc w =
            (Inl (failed_to_load url last'), w @ retry_trace url a (Suc n))"
    by (simp only: step ih retry_trace_Suc append_assoc)
  have "if Suc n = 0 then last' = last_exc
        else \<exists>resp. session_get env url (requests_made w + (Suc n - 1)) = Returns resp
                     \<and> last' = Some (http_error_of resp)"
    using lst by simp
  with full show ?case by blast
qed

text \<open>
  Claim C1, as amended. A response with a 4xx status other than 429 is not raised at once:
  \<open>raise_for_status\<close> raises inside the \<open>try\<close> block, the handler records the error and
  sleeps, and the loop goes on. When each of the \<open>n > 0\<close> attempts is answered so,
  \<open>get_soup\<close> makes \<open>n\<close> requests, sleeps \<open>min(2^k, 10)\<close> seconds after the attempt
  numbered \<open>k\<close>, and then raises \<open>RuntimeError\<close> carrying the error of the last response.
\<close>

theorem get_soup_client_error_retried:
  assumes "0 < n"
    and "\<forall>k < n. \<exists>resp. session_get env url (requests_made w + k) = Returns resp \<and> client_error resp"
  shows "\<exists>resp. session_get env url (requests_made w + (n - 1)) = Returns resp
           \<and> get_soup env url (int n) w =
               (Inl (failed_to_load url (Some (http_error_of resp))), w @ retry_trace url 0 n)"
  using get_soup_attempts_client_errors[OF assms(2), of 0 None] assms(1)
  by (auto simp: get_soup_def)

text \<open>
  Claim C1, as stated, fails: on an address that answers 404, \<open>get_soup\<close> with three
  attempts makes three requests and sleeps 1, 2 and 4 seconds before it raises.
\<close>

theorem get_soup_client_error_counterexample:
  "session_get demo_env ''http://s/b.html'' 0
     = Returns \<lparr>status_code = 404, reason = ''Not Found'', resp_url = ''http://s/b.html'', resp_text = ''''\<rparr>
   \<and> get_soup demo_env ''http://s/b.html'' 3 [] =
     (Inl (RuntimeError ''Failed to load http://s/b.html: 404 Client Error: Not Found for url: http://s/b.html''),
      [Get ''http://s/b.html'', Sleep 1, Get ''http://s/b.html'', Sleep 2, Get ''http://s/b.html'', Sleep 4])"
  by (simp add: demo_simps fetch_simps)

theorem get_soup_client_error_retried_witness:
  "get_soup demo_env ''http://s/b.html'' 3 [] =
     (Inl (RuntimeError ''Failed to load http://s/b.html: 404 Client Error: Not Found for url: http://s/b.html''),
      [Get ''http://s/b.html'', Sleep 1, Get ''http://s/b.html'', Sleep 2, Get ''http://s/b.html'', Sleep 4])"
proof -
  have h: "\<forall>k < 3. \<exists>resp. session_get demo_env ''http://s/b.html'' (requests_made [] + k) = Returns resp \<and> client_error resp"
    by (simp add: demo_simps client_error_def)
  have "(0::nat) < 3" by simp
  from get_soup_client_error_retried[OF this h] show ?thesis
    by (simp add: demo_simps failed_to_load_def http_error_of_def retry_trace_def str_int_def
        upt_rec[of _ "numeral _"] upt_rec[of 0])
qed

lemma get_soup_attempts_failure_step:
  assumes "attempt_fails (session_get env url (requests_made w))"
  shows "\<exists>l. get_soup_attempts env url (a # rest) last_exc w =
           get_soup_attempts env url rest l (w @ [Get url, Sleep (min (2 ^ a) 10)])"
proof (cases "session_get env url (requests_made w)")
  case (Raises m)
  then show ?thesis by (auto simp: do_get_def backoff_sleep_def)
next
  case (Returns resp)
  then have "400 \<le> status_code resp \<and> status_code resp < 600"
    using assms by (simp add: attempt_fails_def)
  then show ?thesis
    using Returns by (auto simp: do_get_def backoff_sleep_def raise_for_status_def)
qed

lemma get_soup_attempts_all_fail:
  assumes "\<forall>k < n. attempt_fails (session_get env url (requests_made w + k))"
  shows "\<exists>l. get_soup_attempts env url [a..<a + n] last_exc w =
            (Inl (failed_to_load url l), w @ retry_trace url a n)"
  using assms
proof (induction n arbitrary: a w last_exc)
  case 0
  then show ?case by (auto simp: retry_trace_def)
next
  case (Suc n)
  let ?w = "w @ [Get url, Sleep (min (2 ^ a) 10)]"
  have "attempt_fails (session_get env url (requests_made w))"
    using Suc.prems by (metis add.right_neutral zero_less_Suc)
  then obtain l where step: "get_soup_attempts env url (a # [Suc a..<Suc a + n]) last_exc w =
           get_soup_attempts env url [Suc a..<Suc a + n] l ?w"
    using get_soup_attempts_failure_step by blast
  have rm: "requests_made ?w = Suc (requests_made w)"
    by (simp add: requests_made_def)
  have "\<forall>k < n. attempt_fails (session_get env url (requests_made ?w + k))"
  proof (intro allI impI)
    fix k assume "k < n"
    then have "Suc k < Suc n" by simp
    then show "attempt_fails (session_get env url (requests_made ?w + k))"
      using Suc.prems rm by (metis add_Suc_shift)
  qed
  from Suc.IH[OF this, of "Suc a" l] obtain l' where
    ih: "get_soup_attempts env url [Suc a..<Suc a + n] l ?w =
            (Inl (failed_to_load url l'), ?w @ retry_trace url (Suc a) n)"
    by blast
  have "get_soup_attempts env url [a..<a + Suc n] last_exc w =
            (Inl (failed_to_load url l'), w @ retry_trace url a (Suc n))"
    unfolding upt_range_Suc by (simp only: step ih retry_trace_Suc append_assoc)
  then show ?case by blast
qed

text \<open>
  When every attempt fails, \<open>get_soup\<close> raises \<open>RuntimeError\<close> after the requests and
  sleeps of all attempts and returns no document.
\<close>

lemma get_soup_all_fail_raises:
  assumes "\<forall>k < n. attempt_fails (session_get env url (requests_made w + k))"
  shows "\<exists>l. get_soup env url (int n) w = (Inl (failed_to_load url l), w @ retry_trace url 0 n)"
  using get_soup_attempts_all_fail[OF assms, of 0 None] by (simp add: get_soup_def)

text \<open>
  Claim C8 at an address that answers 503 on each of the three attempts: \<open>get_soup\<close>
  raises, but the branch for 429 and 5xx goes on to the next attempt without setting
  \<open>last_exc\<close>, so the error raised carries \<open>None\<close> instead of the last failure.
\<close>

theorem get_soup_server_errors_carry_none:
  "get_soup demo_env ''http://s/c.html'' 3 [] =
     (Inl (RuntimeError ''Failed to load http://s/c.html: None''),
      [Get ''http://s/c.html'', Sleep 1, Get ''http://s/c.html'', Sleep 2, Get ''http://s/c.html'', Sleep 4])"
  by (simp add: demo_simps fetch_simps)

section \<open>Properties of dictionaries and of the detail merge\<close>

lemma map_of_dict_set: "map_of (dict_set d k v) = (map_of d)(k \<mapsto> v)"
  by (induction d k v rule: dict_set.induct) auto

lemma dict_get_dict_set: "dict_get (dict_set d k v) k' = (if k' = k then Some v else dict_get d k')"
  by (simp add: dict_get_def map_of_dict_set)

lemma dict_keys_dict_set: "set (dict_keys (dict_set d k v)) = insert k (set (dict_keys d))"
  by (induction d k v rule: dict_set.induct) (auto simp: dict_keys_def)

lemma distinct_dict_set: "distinct (dict_keys d) \<Longrightarrow> distinct (dict_keys (dict_set d k v))"
proof (induction d k v rule: dict_set.induct)
  case (1 k v)
  then show ?case by (simp add: dict_keys_def)
next
  case (2 k' v' d k v)
  then show ?case
    using dict_keys_dict_set[of d k v] by (auto simp: dict_keys_def)
qed

lemma dict_get_dict_update:
  "dict_get (dict_update d e) k = (case map_of (rev e) k of Some v \<Rightarrow> Some v | None \<Rightarrow> dict_get d k)"
proof (induction d e rule: dict_update.induct)
  case (1 d)
  then show ?case by simp
next
  case (2 d k' v e)
  then show ?case
    by (auto simp: dict_get_dict_set map_add_def split: option.splits)
qed

lemma map_of_rev_distinct: "distinct (map fst e) \<Longrightarrow> map_of (rev e) k = map_of e k"
proof (induction e)
  case Nil
  then show ?case by simp
next
  case (Cons x e)
  obtain a b where x: "x = (a, b)" by (cases x)
  have "map_of e a = None"
    using Cons.prems x by (simp add: map_of_eq_None_iff)
  then show ?case
    using Cons x by (auto simp: map_add_def split: option.splits)
qed

lemma dict_get_dict_update_distinct:
  "distinct (dict_keys e) \<Longrightarrow>
   dict_get (dict_update d e) k = (case dict_get e k of Some v \<Rightarrow> Some v | None \<Rightarrow> dict_get d k)"
  using map_of_rev_distinct[of e k]
  by (simp add: dict_get_dict_update dict_keys_def) (simp add: dict_get_def)

lemma distinct_dict_update: "distinct (dict_keys d) \<Longrightarrow> distinct (dict_keys (dict_update d e))"
  by (induction d e rule: dict_update.induct) (auto simp: distinct_dict_set)

lemma table_details_update: "table_details d rows = dict_update d (table_entries rows)"
  by (induction d rows rule: table_details.induct) (auto split: option.splits)

lemma distinct_table_details: "distinct (dict_keys d) \<Longrightarrow> distinct (dict_keys (table_details d rows))"
  by (simp add: table_details_update distinct_dict_update)

lemma distinct_details_of_soup: "distinct (dict_keys (details_of_soup env u sp))"
  unfolding details_of_soup_def Let_def
  by (rule distinct_dict_update) (simp add: dict_keys_def)

lemma table_entries_lookup:
  assumes "k \<in> set (dict_keys (table_entries rows))"
  shows "dict_get (dict_update base (table_details [] rows)) k = map_of (rev (table_entries rows)) k"
proof -
  have d: "distinct (dict_keys (table_details [] rows))"
    by (rule distinct_table_details) (simp add: dict_keys_def)
  have "k \<in> fst ` set (rev (table_entries rows))"
    using assms by (simp add: dict_keys_def)
  then obtain v where v: "map_of (rev (table_entries rows)) k = Some v"
    by (metis map_of_eq_None_iff not_Some_eq)
  then have "dict_get (table_details [] rows) k = Some v"
    by (simp add: table_details_update dict_get_dict_update)
  then show ?thesis
    using v by (simp add: dict_get_dict_update_distinct[OF d])
qed

lemma detail_item_success:
  assumes "dict_get it ''product_url'' = Some (VStr u)" and "get_soup env u 3 w = (Inr sp, w')"
  shows "detail_item env it w = (dict_update it (details_of_soup env u sp), w')"
  using assms by (simp add: detail_item_def parse_details_def)

text \<open>
  Claim C10. When the detail page of an item is fetched, the item becomes
  \<open>it.update(extra)\<close>: every key of the detail mapping takes the detail value, also when it
  is the name of a list-page field, and every other key keeps its value. Each row of the
  attribute table with a header and a data cell is such a key, under its lower-cased header
  with blanks replaced by underscores, and its value is the data cell of the last such row.
\<close>

theorem details_merged_by_overwrite:
  assumes "dict_get it ''product_url'' = Some (VStr u)"
    and "get_soup env u 3 w = (Inr sp, w')"
  shows "detail_item env it w = (dict_update it (details_of_soup env u sp), w')
    \<and> (\<forall>k. dict_get (fst (detail_item env it w)) k =
           (case dict_get (details_of_soup env u sp) k of
              Some v \<Rightarrow> Some v
            | None \<Rightarrow> dict_get it k))
    \<and> (\<forall>rows k. table_rows sp = Some rows \<longrightarrow> k \<in> set (dict_keys (table_entries rows)) \<longrightarrow>
           dict_get (fst (detail_item env it w)) k = map_of (rev (table_entries rows)) k)"
proof (intro conjI allI impI)
  show eq: "detail_item env it w = (dict_update it (details_of_soup env u sp), w')"
    by (rule detail_item_success[OF assms])
  show look: "dict_get (fst (detail_item env it w)) k =
           (case dict_get (details_of_soup env u sp) k of
              Some v \<Rightarrow> Some v
            | None \<Rightarrow> dict_get it k)" for k
    by (simp add: eq dict_get_dict_update_distinct[OF distinct_details_of_soup])
  fix rows k
  assume rows: "table_rows sp = Some rows" and k: "k \<in> set (dict_keys (table_entries rows))"
  have "dict_get (details_of_soup env u sp) k = map_of (rev (table_entries rows)) k"
    unfolding details_of_soup_def Let_def rows option.case
    by (rule table_entries_lookup[OF k])
  moreover have "map_of (rev (table_entries rows)) k \<noteq> None"
    using k by (simp add: dict_keys_def map_of_eq_None_iff)
  ultimately show "dict_get (fst (detail_item env it w)) k = map_of (rev (table_entries rows)) k"
    using look[of k] by (auto split: option.splits)
qed

theorem details_merged_by_overwrite_witness:
  "dict_get demo_item_a ''title'' = Some (VStr ''A'')
   \<and> detail_item demo_env demo_item_a [] =
       ([(''title'', VStr ''A (full)''), (''price'', VFloat (5177 / 100)), (''rating'', VInt 3),
         (''availability'', VStr ''In stock''), (''product_url'', VStr ''http://s/a.html''),
         (''category'', VStr ''Poetry''), (''description'', VStr ''A book.''),
         (''image_url'', VStr ''http://s/a.jpg''), (''upc'', VStr ''a897''),
         (''price_(excl._tax)'', VStr ''51.77'')], [Get ''http://s/a.html''])
   \<and> dict_get (fst (detail_item demo_env demo_item_a [])) ''title'' = Some (VStr ''A (full)'')
   \<and> dict_get (fst (detail_item demo_env demo_item_a [])) ''price'' = Some (VFloat (5177 / 100))"
proof -
  have p: "dict_get demo_item_a ''product_url'' = Some (VStr ''http://s/a.html'')"
    by (simp add: demo_item_a_def dict_get_def)
  have g: "get_soup demo_env ''http://s/a.html'' 3 [] = (Inr (demo_parser ''detail-a''), [Get ''http://s/a.html''])"
    by (simp add: demo_env_def demo_get_def demo_response_def fetch_simps)
  have r: "table_rows (demo_parser ''detail-a'') = Some [\<lparr>th_text = Some ''UPC'', td_text = Some ''a897''\<rparr>,
                                        \<lparr>th_text = Some ''Title'', td_text = Some ''A (full)''\<rparr>,
                                        \<lparr>th_text = Some ''Price (excl. tax)'', td_text = Some ''51.77''\<rparr>]"
    by (simp add: demo_parser_def empty_soup_def)
  have d: "details_of_soup demo_env ''http://s/a.html'' (demo_parser ''detail-a'') =
        [(''category'', VStr ''Poetry''), (''description'', VStr ''A book.''),
         (''image_url'', VStr ''http://s/a.jpg''), (''upc'', VStr ''a897''),
         (''title'', VStr ''A (full)''), (''price_(excl._tax)'', VStr ''51.77'')]"
    by (simp add: details_of_soup_def demo_parser_def empty_soup_def demo_env_def opt_val_def
        lower_def lower_char_def replace_char_def)
  note m = details_merged_by_overwrite[OF p g]
  have 1: "detail_item demo_env demo_item_a [] =
       ([(''title'', VStr ''A (full)''), (''price'', VFloat (5177 / 100)), (''rating'', VInt 3),
         (''availability'', VStr ''In stock''), (''product_url'', VStr ''http://s/a.html''),
         (''category'', VStr ''Poetry''), (''description'', VStr ''A book.''),
         (''image_url'', VStr ''http://s/a.jpg''), (''upc'', VStr ''a897''),
         (''price_(excl._tax)'', VStr ''51.77'')], [Get ''http://s/a.html''])"
    using m by (simp add: d demo_item_a_def)
  have 2: "dict_get (fst (detail_item demo_env demo_item_a [])) ''title'' = Some (VStr ''A (full)'')"
    using conjunct2[OF conjunct2[OF m], rule_format, OF r, of "''title''"]
    by (simp add: dict_keys_def lower_def lower_char_def replace_char_def)
  have 3: "dict_get (fst (detail_item demo_env demo_item_a [])) ''price'' = Some (VFloat (5177 / 100))"
    using conjunct1[OF conjunct2[OF m], rule_format, of "''price''"]
    by (simp add: d) (simp add: dict_get_def demo_item_a_def)
  show ?thesis using 1 2 3 by (simp add: demo_item_a_def dict_get_def)
qed

section \<open>Properties of the crawl\<close>

lemma detail_items_Cons:
  "detail_items env (it # its) w =
     (fst (detail_item env it w) # fst (detail_items env its (snd (detail_item env it w))),
      snd (detail_items env its (snd (detail_item env it w))))"
  by (simp split: prod.splits)

lemma detail_items_length: "length (fst (detail_items env items w)) = length items"
  by (induction items arbitrary: w) (simp_all add: detail_items_Cons del: detail_items.simps(2))

lemma detail_items_nth:
  "i < length items \<Longrightarrow>
   fst (detail_items env items w) ! i =
     fst (detail_item env (items ! i) (snd (detail_items env (take i items) w)))"
proof (induction items arbitrary: w i)
  case Nil
  then show ?case by simp
next
  case (Cons it its)
  show ?case
  proof (cases i)
    case 0
    then show ?thesis by (simp add: detail_items_Cons del: detail_items.simps(2))
  next
    case (Suc j)
    then have "j < length its" using Cons.prems by simp
    from Cons.IH[OF this, of "snd (detail_item env it w)"] show ?thesis
      using Suc by (simp add: detail_items_Cons del: detail_items.simps(2))
  qed
qed

lemma detail_item_failure:
  assumes "dict_get it ''product_url'' = Some (VStr u)" and "parse_details env u w = (Inl e, w')"
  shows "detail_item env it w = (dict_set it ''details_error'' (VStr (str_exception e)), w')"
  using assms by (simp add: detail_item_def)

lemma scrape_loop_page:
  assumes "u \<noteq> []" and "get_soup env u 3 w = (Inr sp, w1)"
    and "parse_list_page env sp u = Inr items"
    and "(if wd then detail_items env items w1 else (items, w1)) = (items', w2)"
  shows "scrape_loop env mp wd (Some u) page rows w =
           (if (case mp of None \<Rightarrow> False | Some m \<Rightarrow> m \<noteq> 0 \<and> int (Suc page) \<ge> m)
            then Some (Inr (rows @ items'), Suc page, w2)
            else scrape_loop env mp wd (find_next_page env sp u) (Suc page) (rows @ items') w2)"
  by (subst scrape_loop.simps) (simp add: assms)

lemma parse_card_product_url:
  "parse_card env u c = Inr it \<Longrightarrow> \<exists>pu. dict_get it ''product_url'' = Some (VStr pu)"
  by (auto simp: parse_card_def dict_get_def Let_def split: option.splits)

lemma parse_cards_product_url:
  "parse_cards env u cs = Inr items \<Longrightarrow>
   \<forall>it \<in> set items. \<exists>pu. dict_get it ''product_url'' = Some (VStr pu)"
proof (induction cs arbitrary: items)
  case Nil
  then show ?case by simp
next
  case (Cons c cs)
  then show ?case
    by (auto split: sum.splits dest: parse_card_product_url)
qed

lemma parse_list_page_product_url:
  "parse_list_page env sp u = Inr items \<Longrightarrow>
   \<forall>it \<in> set items. \<exists>pu. dict_get it ''product_url'' = Some (VStr pu)"
  unfolding parse_list_page_def by (rule parse_cards_product_url)

text \<open>
  Claim C2. On a list page that was fetched and parsed into \<open>k\<close> items, a crawl with deep
  extraction yields \<open>k\<close> items, each made from the item at the same position alone. An
  item whose detail extraction raises \<open>e\<close> becomes the same item with \<open>details_error\<close> set
  to \<open>str(e)\<close> and every other field as it was; an item whose extraction succeeds is
  updated with its own details. The loop then appends all of them to the rows and goes on
  to the page limit and the next page.
\<close>

theorem detail_failure_isolated:
  assumes "u \<noteq> []" and "get_soup env u 3 w = (Inr sp, w1)"
    and "parse_list_page env sp u = Inr items"
  shows "\<exists>items' w2.
      detail_items env items w1 = (items', w2)
    \<and> length items' = length items
    \<and> (\<forall>i < length items. \<exists>pu. dict_get (items ! i) ''product_url'' = Some (VStr pu))
    \<and> (\<forall>i < length items. \<forall>pu e wi'.
          dict_get (items ! i) ''product_url'' = Some (VStr pu) \<longrightarrow>
          parse_details env pu (snd (detail_items env (take i items) w1)) = (Inl e, wi') \<longrightarrow>
            items' ! i = dict_set (items ! i) ''details_error'' (VStr (str_exception e))
          \<and> (\<forall>k. dict_get (items' ! i) k =
                 (if k = ''details_error'' then Some (VStr (str_exception e))
                  else dict_get (items ! i) k)))
    \<and> (\<forall>j < length items. \<forall>pu extra wj'.
          dict_get (items ! j) ''product_url'' = Some (VStr pu) \<longrightarrow>
          parse_details env pu (snd (detail_items env (take j items) w1)) = (Inr extra, wj') \<longrightarrow>
            items' ! j = dict_update (items ! j) extra)
    \<and> scrape_loop env max_pages True (Some u) page rows w =
          (if (case max_pages of None \<Rightarrow> False | Some m \<Rightarrow> m \<noteq> 0 \<and> int (Suc page) \<ge> m)
           then Some (Inr (rows @ items'), Suc page, w2)
           else scrape_loop env max_pages True (find_next_page env sp u) (Suc page)
                  (rows @ items') w2)"
proof -
  obtain items' w2 where d: "detail_items env items w1 = (items', w2)"
    by (cases "detail_items env items w1")
  have len: "length items' = length items"
    using detail_items_length[of env items w1] d by simp
  have nth: "items' ! i = fst (detail_item env (items ! i) (snd (detail_items env (take i items) w1)))"
    if "i < length items" for i
    using detail_items_nth[OF that, of env w1] d by simp
  have pu: "\<forall>i < length items. \<exists>pu. dict_get (items ! i) ''product_url'' = Some (VStr pu)"
    using parse_list_page_product_url[OF assms(3)] by simp
  have fail: "\<forall>i < length items. \<forall>pu e wi'.
          dict_get (items ! i) ''product_url'' = Some (VStr pu) \<longrightarrow>
          parse_details env pu (snd (detail_items env (take i items) w1)) = (Inl e, wi') \<longrightarrow>
            items' ! i = dict_set (items ! i) ''details_error'' (VStr (str_exception e))
          \<and> (\<forall>k. dict_get (items' ! i) k =
                 (if k = ''details_error'' then Some (VStr (str_exception e))
                  else dict_get (items ! i) k))"
  proof (intro allI impI)
    fix i pu e wi'
    assume i: "i < length items"
      and p: "dict_get (items ! i) ''product_url'' = Some (VStr pu)"
      and f: "parse_details env pu (snd (detail_items env (take i items) w1)) = (Inl e, wi')"
    have "items' ! i = dict_set (items ! i) ''details_error'' (VStr (str_exception e))"
      using nth[OF i] detail_item_failure[OF p f] by simp
    then show "items' ! i = dict_set (items ! i) ''details_error'' (VStr (str_exception e))
          \<and> (\<forall>k. dict_get (items' ! i) k =
                 (if k = ''details_error'' then Some (VStr (str_exception e))
                  else dict_get (items ! i) k))"
      by (simp add: dict_get_dict_set)
  qed
  have ok: "\<forall>j < length items. \<forall>pu extra wj'.
          dict_get (items ! j) ''product_url'' = Some (VStr pu) \<longrightarrow>
          parse_details env pu (snd (detail_items env (take j items) w1)) = (Inr extra, wj') \<longrightarrow>
            items' ! j = dict_update (items ! j) extra"
  proof (intro allI impI)
    fix j pu extra wj'
    assume j: "j < length items"
      and p: "dict_get (items ! j) ''product_url'' = Some (VStr pu)"
      and f: "parse_details env pu (snd (detail_items env (take j items) w1)) = (Inr extra, wj')"
    show "items' ! j = dict_update (items ! j) extra"
      using nth[OF j] p f by (simp add: detail_item_def)
  qed
  have loop: "scrape_loop env max_pages True (Some u) page rows w =
          (if (case max_pages of None \<Rightarrow> False | Some m \<Rightarrow> m \<noteq> 0 \<and> int (Suc page) \<ge> m)
           then Some (Inr (rows @ items'), Suc page, w2)
           else scrape_loop env max_pages True (find_next_page env sp u) (Suc page)
                  (rows @ items') w2)"
    by (rule scrape_loop_page[OF assms]) (simp add: d)
  show ?thesis
    using d len pu fail ok loop by blast
qed

lemmas parse_simps = parse_list_page_def parse_card_def parse_price_def replace_char_def
  re_match_number_def match_fraction_def is_digit_def py_float_def int_of_digits_def digit_val_def
  parse_rating_def mapping_def opt_val_def is_space_def

lemma demo_get_page1:
  "get_soup demo_env ''http://s/page-1.html'' 3 [] = (Inr (demo_parser ''list-1''), [Get ''http://s/page-1.html''])"
  by (simp add: demo_env_def demo_get_def demo_response_def fetch_simps)

lemma demo_parse_page1:
  "parse_list_page demo_env (demo_parser ''list-1'') ''http://s/page-1.html'' = Inr [demo_item_a, demo_item_b]"
  by (simp add: demo_simps parse_simps demo_item_a_def demo_item_b_def)

lemma demo_details_a:
  "parse_details demo_env ''http://s/a.html'' w =
     (Inr [(''category'', VStr ''Poetry''), (''description'', VStr ''A book.''),
         (''image_url'', VStr ''http://s/a.jpg''), (''upc'', VStr ''a897''),
         (''title'', VStr ''A (full)''), (''price_(excl._tax)'', VStr ''51.77'')], w @ [Get ''http://s/a.html''])"
  by (simp add: parse_details_def details_of_soup_def demo_simps fetch_simps opt_val_def
        lower_def lower_char_def replace_char_def)

lemma demo_details_b:
  "parse_details demo_env ''http://s/b.html'' w =
     (Inl (RuntimeError ''Failed to load http://s/b.html: 404 Client Error: Not Found for url: http://s/b.html''),
      w @ [Get ''http://s/b.html'', Sleep 1, Get ''http://s/b.html'', Sleep 2, Get ''http://s/b.html'', Sleep 4])"
  by (simp add: parse_details_def demo_simps fetch_simps)

lemma demo_detail_items_page1:
  "detail_items demo_env [demo_item_a, demo_item_b] w =
     ([dict_update demo_item_a [(''category'', VStr ''Poetry''), (''description'', VStr ''A book.''),
         (''image_url'', VStr ''http://s/a.jpg''), (''upc'', VStr ''a897''),
         (''title'', VStr ''A (full)''), (''price_(excl._tax)'', VStr ''51.77'')],
       dict_set demo_item_b ''details_error''
         (VStr ''Failed to load http://s/b.html: 404 Client Error: Not Found for url: http://s/b.html'')],
      w @ [Get ''http://s/a.html'', Get ''http://s/b.html'', Sleep 1, Get ''http://s/b.html'', Sleep 2,
           Get ''http://s/b.html'', Sleep 4])"
proof -
  have a: "dict_get demo_item_a ''product_url'' = Some (VStr ''http://s/a.html'')"
    by (simp add: demo_item_a_def dict_get_def)
  have b: "dict_get demo_item_b ''product_url'' = Some (VStr ''http://s/b.html'')"
    by (simp add: demo_item_b_def dict_get_def)
  show ?thesis
    by (simp add: detail_item_def a b demo_details_a demo_details_b)
qed

theorem detail_failure_isolated_witness:
  "scrape_loop demo_env (Some 1) True (Some ''http://s/page-1.html'') 0 [] [] =
     Some (Inr [[(''title'', VStr ''A (full)''), (''price'', VFloat (5177 / 100)), (''rating'', VInt 3),
                 (''availability'', VStr ''In stock''), (''product_url'', VStr ''http://s/a.html''),
                 (''category'', VStr ''Poetry''), (''description'', VStr ''A book.''),
                 (''image_url'', VStr ''http://s/a.jpg''), (''upc'', VStr ''a897''),
                 (''price_(excl._tax)'', VStr ''51.77'')],
                [(''title'', VStr ''B''), (''price'', VFloat (2687 / 50)), (''rating'', VInt 1),
                 (''availability'', VStr ''In stock''), (''product_url'', VStr ''http://s/b.html''),
                 (''details_error'',
                  VStr ''Failed to load http://s/b.html: 404 Client Error: Not Found for url: http://s/b.html'')]],
           1,
           [Get ''http://s/page-1.html'', Get ''http://s/a.html'', Get ''http://s/b.html'', Sleep 1,
            Get ''http://s/b.html'', Sleep 2, Get ''http://s/b.html'', Sleep 4])"
proof -
  have ne: "''http://s/page-1.html'' \<noteq> []" by simp
  from detail_failure_isolated[OF ne demo_get_page1 demo_parse_page1, of "Some 1" 0 "[]"]
  obtain items' w2 where
    d: "detail_items demo_env [demo_item_a, demo_item_b] [Get ''http://s/page-1.html''] = (items', w2)"
    and l: "scrape_loop demo_env (Some 1) True (Some ''http://s/page-1.html'') 0 [] [] =
          (if (case Some (1::int) of None \<Rightarrow> False | Some m \<Rightarrow> m \<noteq> 0 \<and> int (Suc 0) \<ge> m)
           then Some (Inr ([] @ items'), Suc 0, w2)
           else scrape_loop demo_env (Some 1) True
                  (find_next_page demo_env (demo_parser ''list-1'') ''http://s/page-1.html'') (Suc 0)
                  ([] @ items') w2)"
    by blast
  from d have "items' = [dict_update demo_item_a [(''category'', VStr ''Poetry''), (''description'', VStr ''A book.''),
         (''image_url'', VStr ''http://s/a.jpg''), (''upc'', VStr ''a897''),
         (''title'', VStr ''A (full)''), (''price_(excl._tax)'', VStr ''51.77'')],
       dict_set demo_item_b ''details_error''
         (VStr ''Failed to load http://s/b.html: 404 Client Error: Not Found for url: http://s/b.html'')]"
    and "w2 = [Get ''http://s/page-1.html'', Get ''http://s/a.html'', Get ''http://s/b.html'', Sleep 1,
            Get ''http://s/b.html'', Sleep 2, Get ''http://s/b.html'', Sleep 4]"
    unfolding demo_detail_items_page1 by simp_all
  then show ?thesis
    using l by (simp add: demo_item_a_def demo_item_b_def)
qed

lemma scrape_loop_None: "scrape_loop env mp wd None page rows w = Some (Inr rows, page, w)"
  by (subst scrape_loop.simps) simp

lemma scrape_loop_empty: "scrape_loop env mp wd (Some []) page rows w = Some (Inr rows, page, w)"
  by (subst scrape_loop.simps) simp

text \<open>
  Claim C5. On a list page that was fetched and parsed and has no next-page element,
  \<open>find_next_page\<close> gives \<open>None\<close> and the loop returns after this page, whatever
  \<open>max_pages\<close> is: the page counter has gone up by one, the rows are extended by the items
  of this page, and nothing is requested after the page's own requests.
\<close>

theorem no_next_link_terminates:
  assumes "u \<noteq> []" and "get_soup env u 3 w = (Inr sp, w1)"
    and "parse_list_page env sp u = Inr items"
    and "next_a sp = None"
  shows "find_next_page env sp u = None
    \<and> (\<exists>items' w2.
          (if with_details then detail_items env items w1 else (items, w1)) = (items', w2)
        \<and> scrape_loop env max_pages with_details (Some u) page rows w =
             Some (Inr (rows @ items'), Suc page, w2))"
proof -
  have n: "find_next_page env sp u = None"
    using assms(4) by (simp add: find_next_page_def)
  obtain items' w2 where
    d: "(if with_details then detail_items env items w1 else (items, w1)) = (items', w2)"
    by (cases "if with_details then detail_items env items w1 else (items, w1)")
  have "scrape_loop env max_pages with_details (Some u) page rows w =
          Some (Inr (rows @ items'), Suc page, w2)"
    using scrape_loop_page[OF assms(1-3) d, of max_pages page rows]
    by (simp add: n scrape_loop_None)
  then show ?thesis using n d by blast
qed

lemma demo_get_page2:
  "get_soup demo_env ''http://s/page-2.html'' 3 w = (Inr (demo_parser ''list-2''), w @ [Get ''http://s/page-2.html''])"
  by (simp add: demo_env_def demo_get_def demo_response_def fetch_simps)

lemma demo_parse_page2:
  "parse_list_page demo_env (demo_parser ''list-2'') ''http://s/page-2.html'' = Inr [demo_item_a2]"
  by (simp add: demo_simps parse_simps demo_item_a2_def)

theorem no_next_link_terminates_witness:
  "scrape_loop demo_env (Some 5) False (Some ''http://s/page-2.html'') 1 [demo_item_a, demo_item_b]
       [Get ''http://s/page-1.html'']
     = Some (Inr [demo_item_a, demo_item_b, demo_item_a2], 2,
             [Get ''http://s/page-1.html'', Get ''http://s/page-2.html''])
   \<and> scrape_loop demo_env None False (Some ''http://s/page-2.html'') 1 [demo_item_a, demo_item_b]
       [Get ''http://s/page-1.html'']
     = Some (Inr [demo_item_a, demo_item_b, demo_item_a2], 2,
             [Get ''http://s/page-1.html'', Get ''http://s/page-2.html''])"
proof -
  have ne: "''http://s/page-2.html'' \<noteq> []" by simp
  have nx: "next_a (demo_parser ''list-2'') = None"
    by (simp add: demo_parser_def empty_soup_def)
  note t = no_next_link_terminates[OF ne demo_get_page2 demo_parse_page2 nx,
      where w = "[Get ''http://s/page-1.html'']" and with_details = False and page = 1
        and rows = "[demo_item_a, demo_item_b]"]
  show ?thesis
    using t[where max_pages = "Some 5"] t[where max_pages = None] by simp
qed

lemma scrape_loop_fetch_error:
  assumes "u \<noteq> []" and "get_soup env u 3 w = (Inl e, w1)"
  shows "scrape_loop env mp wd (Some u) page rows w = Some (Inl e, Suc page, w1)"
  by (subst scrape_loop.simps) (simp add: assms)

lemma scrape_loop_parse_error:
  assumes "u \<noteq> []" and "get_soup env u 3 w = (Inr sp, w1)" and "parse_list_page env sp u = Inl e"
  shows "scrape_loop env mp wd (Some u) page rows w = Some (Inl e, Suc page, w1)"
  by (subst scrape_loop.simps) (simp add: assms)

lemma scrape_loop_limit:
  assumes "0 < N"
  shows "int page < N \<Longrightarrow>
    \<exists>r p w'. scrape_loop env (Some N) wd url page rows w = Some (r, p, w') \<and> int p \<le> N"
proof (induction "nat N - page" arbitrary: page url rows w)
  case 0
  then show ?case by simp
next
  case (Suc k)
  show ?case
  proof (cases url)
    case None
    then show ?thesis using Suc.prems by (simp add: scrape_loop_None)
  next
    case (Some u)
    show ?thesis
    proof (cases "u = []")
      case True
      then show ?thesis using Some Suc.prems by (simp add: scrape_loop_empty)
    next
      case ne: False
      obtain r1 w1 where g: "get_soup env u 3 w = (r1, w1)"
        by (cases "get_soup env u 3 w")
      show ?thesis
      proof (cases r1)
        case (Inl e)
        then show ?thesis
          using scrape_loop_fetch_error[OF ne, of env w e w1 "Some N" wd page rows] g Some Suc.prems
          by simp
      next
        case (Inr sp)
        note sp = g[unfolded Inr]
        show ?thesis
        proof (cases "parse_list_page env sp u")
          case (Inl e)
          then show ?thesis
            using scrape_loop_parse_error[OF ne sp Inl, of "Some N" wd page rows] Some Suc.prems
            by simp
        next
          case items: (Inr items)
          obtain items' w2 where
            d: "(if wd then detail_items env items w1 else (items, w1)) = (items', w2)"
            by (cases "if wd then detail_items env items w1 else (items, w1)")
          note step = scrape_loop_page[OF ne sp items d, of "Some N" page rows]
          show ?thesis
          proof (cases "N \<le> int (Suc page)")
            case True
            then show ?thesis
              using step assms Some Suc.prems by simp
          next
            case False
            then have lt: "int (Suc page) < N" by simp
            have k: "k = nat N - Suc page" using Suc.hyps(2) by simp
            from Suc.hyps(1)[OF k lt, of "find_next_page env sp u" "rows @ items'" w2]
            show ?thesis
              using step False Some by simp
          qed
        qed
      qed
    qed
  qed
qed

text \<open>
  Claim C3. With a page limit \<open>N > 0\<close> the crawl returns, and the page counter, which goes
  up by one just before each fetch of a list page, ends at most at \<open>N\<close>. The limit is
  tested after the items of the page have been appended to the rows: a page that is
  fetched and parsed when the counter reaches the limit ends the crawl with all its items
  accumulated, whether or not it has a next link. With \<open>N = 1\<close> this is the first page.
\<close>

theorem page_limit_respected:
  assumes "0 < N"
  shows "(\<exists>r p w'. scrape_loop env (Some N) with_details (Some start_url) 0 [] w = Some (r, p, w')
            \<and> int p \<le> N)
    \<and> (\<forall>u page rows w0 sp w1 items items' w2.
          u \<noteq> [] \<longrightarrow> get_soup env u 3 w0 = (Inr sp, w1) \<longrightarrow> parse_list_page env sp u = Inr items \<longrightarrow>
          (if with_details then detail_items env items w1 else (items, w1)) = (items', w2) \<longrightarrow>
          N \<le> int (Suc page) \<longrightarrow>
          scrape_loop env (Some N) with_details (Some u) page rows w0 =
            Some (Inr (rows @ items'), Suc page, w2))"
proof (intro conjI allI impI)
  show "\<exists>r p w'. scrape_loop env (Some N) with_details (Some start_url) 0 [] w = Some (r, p, w')
            \<and> int p \<le> N"
    using scrape_loop_limit[OF assms, of 0] assms by simp
next
  fix u page rows w0 sp w1 items items' w2
  assume "u \<noteq> []" "get_soup env u 3 w0 = (Inr sp, w1)" "parse_list_page env sp u = Inr items"
    "(if with_details then detail_items env items w1 else (items, w1)) = (items', w2)"
    and lim: "N \<le> int (Suc page)"
  from scrape_loop_page[OF this(1-4), of "Some N" page rows]
  show "scrape_loop env (Some N) with_details (Some u) page rows w0 =
            Some (Inr (rows @ items'), Suc page, w2)"
    using lim assms by simp
qed

theorem page_limit_respected_witness:
  "find_next_page demo_env (demo_parser ''list-1'') ''http://s/page-1.html'' = Some ''http://s/page-2.html''
   \<and> scrape_loop demo_env (Some 1) False (Some ''http://s/page-1.html'') 0 [] [] =
       Some (Inr [demo_item_a, demo_item_b], 1, [Get ''http://s/page-1.html''])"
proof -
  have ne: "''http://s/page-1.html'' \<noteq> []" by simp
  have n: "find_next_page demo_env (demo_parser ''list-1'') ''http://s/page-1.html'' = Some ''http://s/page-2.html''"
    by (simp add: find_next_page_def demo_simps)
  have pos: "(0::int) < 1" by simp
  have d: "(if False then detail_items demo_env [demo_item_a, demo_item_b] [Get ''http://s/page-1.html'']
            else ([demo_item_a, demo_item_b], [Get ''http://s/page-1.html'']))
           = ([demo_item_a, demo_item_b], [Get ''http://s/page-1.html''])"
    by simp
  have lim: "(1::int) \<le> int (Suc 0)" by simp
  from conjunct2[OF page_limit_respected[OF pos, of demo_env False], rule_format,
      OF ne demo_get_page1 demo_parse_page1 d lim, of "[]"]
  show ?thesis using n by simp
qed

section \<open>Properties of the result assembler and of the entry point\<close>

lemma drop_duplicates_keys:
  "set (drop_duplicates col seen rs) \<subseteq> {x \<in> set rs. dict_get x col \<notin> set seen}"
proof (induction rs arbitrary: seen)
  case Nil
  then show ?case by simp
next
  case (Cons r rs)
  show ?case
  proof (cases "dict_get r col \<in> set seen")
    case True
    then show ?thesis using Cons[of seen] by auto
  next
    case False
    then show ?thesis using Cons[of "dict_get r col # seen"] by auto
  qed
qed

lemma drop_duplicates_distinct:
  "distinct (map (\<lambda>r. dict_get r col) (drop_duplicates col seen rs))"
proof (induction rs arbitrary: seen)
  case Nil
  then show ?case by simp
next
  case (Cons r rs)
  have "dict_get r col \<notin> (\<lambda>x. dict_get x col) ` set (drop_duplicates col (dict_get r col # seen) rs)"
    using drop_duplicates_keys[of col "dict_get r col # seen" rs] by auto
  then show ?case using Cons by simp
qed

lemma drop_duplicates_filter:
  "filter (\<lambda>r. dict_get r col = key) (drop_duplicates col seen rs) =
     (if key \<in> set seen then []
      else case List.find (\<lambda>r. dict_get r col = key) rs of None \<Rightarrow> [] | Some r \<Rightarrow> [r])"
proof (induction rs arbitrary: seen)
  case Nil
  then show ?case by simp
next
  case (Cons r rs)
  show ?case
  proof (cases "dict_get r col \<in> set seen")
    case True
    then show ?thesis using Cons[of seen] by auto
  next
    case False
    then show ?thesis using Cons[of "dict_get r col # seen"] by auto
  qed
qed

lemma set_first_seen: "set (first_seen xs) = set xs"
  by (simp add: first_seen_def)

lemma product_url_column:
  assumes "r \<in> set rows" and "dict_get r ''product_url'' \<noteq> None"
  shows "''product_url'' \<in> set (columns (DataFrame rows))"
proof -
  have "''product_url'' \<in> set (dict_keys r)"
    using assms(2) by (auto simp: dict_get_def dict_keys_def map_of_eq_None_iff)
  then show ?thesis
    using assms(1) by (auto simp: DataFrame_def set_first_seen)
qed

lemma assemble_first_seen:
  assumes "\<forall>r \<in> set rows. dict_get r ''product_url'' \<noteq> None"
  shows "\<exists>df. assemble rows = Inr df
     \<and> distinct (map (\<lambda>r. dict_get r ''product_url'') (records df))
     \<and> (\<forall>key. filter (\<lambda>r. dict_get r ''product_url'' = key) (records df) =
           (case List.find (\<lambda>r. dict_get r ''product_url'' = key) rows of
              None \<Rightarrow> []
            | Some r \<Rightarrow> [r]))"
proof (cases rows)
  case Nil
  then show ?thesis
    by (simp add: assemble_def DataFrame_def df_empty_def first_seen_def)
next
  case (Cons r rs)
  then have col: "''product_url'' \<in> set (columns (DataFrame rows))"
    using product_url_column[of r rows] assms by simp
  then have ne: "\<not> df_empty (DataFrame rows)"
    using Cons by (auto simp: df_empty_def DataFrame_def)
  have a: "assemble rows =
      Inr \<lparr>columns = filter (\<lambda>c. c \<in> set (columns (DataFrame rows))) preferred
                       @ filter (\<lambda>c. c \<notin> set preferred) (columns (DataFrame rows)),
           records = drop_duplicates ''product_url'' [] rows\<rparr>"
    using col ne by (simp add: assemble_def Let_def) (simp add: DataFrame_def)
  show ?thesis
    unfolding a
    using drop_duplicates_distinct[of "''product_url''" "[]" rows]
      drop_duplicates_filter[of "''product_url''" _ "[]" rows]
    by simp
qed

text \<open>
  Claim C4. For rows that all have a \<open>product_url\<close>, as accumulated rows do, the assembler
  returns a frame in which no two records share a \<open>product_url\<close>, and the records with a
  given \<open>product_url\<close> are exactly the first row with it in accumulation order, if there is
  one.
\<close>

theorem dedup_first_seen:
  assumes "\<forall>r \<in> set rows. dict_get r ''product_url'' \<noteq> None"
  shows "\<exists>df. assemble rows = Inr df
     \<and> distinct (map (\<lambda>r. dict_get r ''product_url'') (records df))
     \<and> (\<forall>key. filter (\<lambda>r. dict_get r ''product_url'' = key) (records df) =
           (case List.find (\<lambda>r. dict_get r ''product_url'' = key) rows of
              None \<Rightarrow> []
            | Some r \<Rightarrow> [r]))"
  using assms by (rule assemble_first_seen)

theorem dedup_first_seen_witness:
  "assemble [demo_item_a, demo_item_b, demo_item_a2] =
     Inr \<lparr>columns = [''title'', ''price'', ''rating'', ''availability'', ''product_url''],
          records = [demo_item_a, demo_item_b]\<rparr>"
proof -
  have h: "\<forall>r \<in> set [demo_item_a, demo_item_b, demo_item_a2]. dict_get r ''product_url'' \<noteq> None"
    by (simp add: demo_item_a_def demo_item_b_def demo_item_a2_def dict_get_def)
  from dedup_first_seen[OF h] obtain df where
    df: "assemble [demo_item_a, demo_item_b, demo_item_a2] = Inr df" by blast
  then show ?thesis
    by (simp add: assemble_def DataFrame_def df_empty_def first_seen_def dict_keys_def preferred_def
        dict_get_def demo_item_a_def demo_item_b_def demo_item_a2_def Let_def)
qed

lemma dict_set_keeps: "dict_get d k' \<noteq> None \<Longrightarrow> dict_get (dict_set d k v) k' \<noteq> None"
  by (simp add: dict_get_dict_set)

lemma dict_update_keeps: "dict_get d k' \<noteq> None \<Longrightarrow> dict_get (dict_update d e) k' \<noteq> None"
  by (simp add: dict_get_dict_update split: option.splits)

lemma detail_item_shape:
  "(\<exists>e. fst (detail_item env it w) = dict_update it e)
   \<or> (\<exists>v. fst (detail_item env it w) = dict_set it ''details_error'' v)"
  by (auto simp: detail_item_def split: option.splits pyval.splits prod.splits sum.splits)

lemma detail_item_keeps:
  assumes "dict_get it k \<noteq> None"
  shows "dict_get (fst (detail_item env it w)) k \<noteq> None"
  using detail_item_shape[of env it w] dict_set_keeps[OF assms] dict_update_keeps[OF assms]
  by metis

lemma detail_items_keep:
  "\<forall>it \<in> set items. dict_get it k \<noteq> None \<Longrightarrow>
   \<forall>it \<in> set (fst (detail_items env items w)). dict_get it k \<noteq> None"
proof (induction items arbitrary: w)
  case Nil
  then show ?case by simp
next
  case (Cons it its)
  have "dict_get (fst (detail_item env it w)) k \<noteq> None"
    using Cons.prems detail_item_keeps[of it k env w] by simp
  moreover have "\<forall>x \<in> set (fst (detail_items env its (snd (detail_item env it w)))). dict_get x k \<noteq> None"
    using Cons.IH[of "snd (detail_item env it w)"] Cons.prems by simp
  ultimately show ?case
    unfolding detail_items_Cons by simp
qed

lemma parse_list_page_has_url:
  "parse_list_page env sp u = Inr items \<Longrightarrow> \<forall>it \<in> set items. dict_get it ''product_url'' \<noteq> None"
  using parse_list_page_product_url[of env sp u items] by auto

text \<open>
  Every accumulated row has a \<open>product_url\<close>: the items of \<open>parse_list_page\<close> have one,
  and neither the detail merge nor the error note removes a key.
\<close>

lemma scrape_loop_rows_have_url:
  assumes "scrape_loop env mp wd url page rows w = Some y"
  shows "(\<forall>r \<in> set rows. dict_get r ''product_url'' \<noteq> None) \<longrightarrow>
         (\<forall>rows' p w'. y = (Inr rows', p, w') \<longrightarrow> (\<forall>r \<in> set rows'. dict_get r ''product_url'' \<noteq> None))"
proof (rule scrape_loop.raw_induct[OF _ assms])
  fix loop env mp wd url page rows w y
  assume 1: "\<And>e2 m2 d2 u2 p2 r2 w2 y2. loop e2 m2 d2 u2 p2 r2 w2 = Some y2 \<Longrightarrow>
      (\<forall>r \<in> set r2. dict_get r ''product_url'' \<noteq> None) \<longrightarrow>
         (\<forall>rows' p w'. y2 = (Inr rows', p, w') \<longrightarrow> (\<forall>r \<in> set rows'. dict_get r ''product_url'' \<noteq> None))"
    "(case url of None \<Rightarrow> Some (Inr rows, page, w)
      | Some u \<Rightarrow>
          if u = [] then Some (Inr rows, page, w)
          else case get_soup env u 3 w of
               (Inl e, w1) \<Rightarrow> Some (Inl e, Suc page, w1)
               | (Inr sp, w1) \<Rightarrow>
                   case parse_list_page env sp u of
                   Inl e \<Rightarrow> Some (Inl e, Suc page, w1)
                   | Inr items \<Rightarrow>
                       case if wd then detail_items env items w1
                            else (items, w1) of
                       (items', w2) \<Rightarrow>
                         if case mp of None \<Rightarrow> False
                            | Some m \<Rightarrow> m \<noteq> 0 \<and> m \<le> int (Suc page)
                         then Some (Inr (rows @ items'), Suc page, w2)
                         else loop env mp wd
                               (find_next_page env sp u) (Suc page)
                               (rows @ items') w2) =
     Some y"
  show "(\<forall>r \<in> set rows. dict_get r ''product_url'' \<noteq> None) \<longrightarrow>
         (\<forall>rows' p w'. y = (Inr rows', p, w') \<longrightarrow> (\<forall>r \<in> set rows'. dict_get r ''product_url'' \<noteq> None))"
  proof (intro impI allI)
    fix rows' p w'
    assume inv: "\<forall>r \<in> set rows. dict_get r ''product_url'' \<noteq> None" and y: "y = (Inr rows', p, w')"
    show "\<forall>r \<in> set rows'. dict_get r ''product_url'' \<noteq> None"
    proof (cases url)
      case None
      then show ?thesis using 1(2) inv y by simp
    next
      case (Some u)
      show ?thesis
      proof (cases "u = []")
        case True
        then show ?thesis using 1(2) inv y Some by simp
      next
        case ne: False
        obtain r1 w1 where g: "get_soup env u 3 w = (r1, w1)" by (cases "get_soup env u 3 w")
        show ?thesis
        proof (cases r1)
          case (Inl e)
          then show ?thesis using 1(2) y Some ne g by simp
        next
          case (Inr sp)
          show ?thesis
          proof (cases "parse_list_page env sp u")
            case (Inl e)
            then show ?thesis using 1(2) y Some ne g Inr by simp
          next
            case items: (Inr items)
            obtain items' w2 where
              d: "(if wd then detail_items env items w1 else (items, w1)) = (items', w2)"
              by (cases "if wd then detail_items env items w1 else (items, w1)")
            have "\<forall>it \<in> set items. dict_get it ''product_url'' \<noteq> None"
              by (rule parse_list_page_has_url[OF items])
            then have "\<forall>it \<in> set items'. dict_get it ''product_url'' \<noteq> None"
              using d detail_items_keep[of items "''product_url''" env w1]
              by (auto split: if_splits)
            then have inv': "\<forall>r \<in> set (rows @ items'). dict_get r ''product_url'' \<noteq> None"
              using inv by auto
            show ?thesis
            proof (cases "case mp of None \<Rightarrow> False | Some m \<Rightarrow> m \<noteq> 0 \<and> int (Suc page) \<ge> m")
              case True
              then have "y = (Inr (rows @ items'), Suc page, w2)"
                using 1(2) Some ne g Inr items d by simp
              then show ?thesis using inv' y by simp
            next
              case False
              then have "loop env mp wd (find_next_page env sp u) (Suc page) (rows @ items') w2 = Some y"
                using 1(2) Some ne g Inr items d by simp
              from 1(1)[OF this] show ?thesis using inv' y by blast
            qed
          qed
        qed
      qed
    qed
  qed
qed

lemma scrape_no_duplicates:
  assumes "scrape env start_url mp wd w = Some (Inr df, w')"
  shows "distinct (map (\<lambda>r. dict_get r ''product_url'') (records df))"
proof (cases "scrape_loop env mp wd (Some start_url) 0 [] w")
  case None
  then show ?thesis using assms by (simp add: scrape_def)
next
  case (Some y)
  obtain r p w1 where y: "y = (r, p, w1)" by (cases y)
  show ?thesis
  proof (cases r)
    case (Inl e)
    then show ?thesis using assms Some y by (simp add: scrape_def)
  next
    case (Inr rows)
    have "\<forall>r \<in> set rows. dict_get r ''product_url'' \<noteq> None"
      using scrape_loop_rows_have_url[OF Some] y Inr by simp
    from assemble_first_seen[OF this] show ?thesis
      using assms Some y Inr by (auto simp: scrape_def)
  qed
qed

text \<open>
  Claim C9. When the crawl returns with no accumulated row, \<open>scrape\<close> returns an empty
  frame and \<open>main\<close> ends without an exception after printing \<open>No data collected.\<close>:
  the only effect added to those of the crawl is this message, so no file is written.
\<close>

theorem empty_crawl_no_export:
  assumes "scrape_loop env (if arg_max_pages a = 0 then None else Some (arg_max_pages a))
             (arg_details a) (Some (arg_start_url a)) 0 [] w = Some (Inr [], p, w')"
  shows "\<exists>df. scrape env (arg_start_url a) (if arg_max_pages a = 0 then None else Some (arg_max_pages a))
             (arg_details a) w = Some (Inr df, w')
      \<and> df_empty df \<and> records df = []
      \<and> main env a w = Some (None, w' @ [Print ''No data collected.''])"
proof -
  have e: "assemble [] = Inr (DataFrame [])" "df_empty (DataFrame [])" "records (DataFrame []) = []"
    by (simp_all add: assemble_def DataFrame_def df_empty_def)
  have s: "scrape env (arg_start_url a) (if arg_max_pages a = 0 then None else Some (arg_max_pages a))
             (arg_details a) w = Some (Inr (DataFrame []), w')"
    using assms e(1) by (simp add: scrape_def)
  have "main env a w = Some (None, w' @ [Print ''No data collected.''])"
    unfolding main_def Let_def s using e(2) by simp
  then show ?thesis using s e by blast
qed

lemma demo_get_empty:
  "get_soup demo_env ''http://s/empty.html'' 3 w = (Inr (demo_parser ''list-empty''), w @ [Get ''http://s/empty.html''])"
  by (simp add: demo_env_def demo_get_def demo_response_def fetch_simps)

lemma demo_crawl_empty:
  "scrape_loop demo_env None False (Some ''http://s/empty.html'') 0 [] [] =
     Some (Inr [], 1, [Get ''http://s/empty.html''])"
proof -
  have ne: "''http://s/empty.html'' \<noteq> []" by simp
  have p: "parse_list_page demo_env (demo_parser ''list-empty'') ''http://s/empty.html'' = Inr []"
    by (simp add: parse_list_page_def demo_parser_def empty_soup_def)
  have nx: "next_a (demo_parser ''list-empty'') = None"
    by (simp add: demo_parser_def empty_soup_def)
  have d: "(if False then detail_items demo_env [] ([] @ [Get ''http://s/empty.html''])
            else ([], [] @ [Get ''http://s/empty.html''])) = ([], [Get ''http://s/empty.html''])"
    by simp
  show ?thesis
    using scrape_loop_page[OF ne demo_get_empty p d, of None 0 "[]"]
    by (simp add: find_next_page_def nx scrape_loop_None)
qed

theorem empty_crawl_no_export_witness:
  "main demo_env \<lparr>arg_start_url = ''http://s/empty.html'', arg_max_pages = 0, arg_details = False,
                   arg_output = ''books.xlsx''\<rparr> []
     = Some (None, [Get ''http://s/empty.html'', Print ''No data collected.''])"
proof -
  let ?a = "\<lparr>arg_start_url = ''http://s/empty.html'', arg_max_pages = 0, arg_details = False,
                   arg_output = ''books.xlsx''\<rparr>"
  have h: "scrape_loop demo_env (if arg_max_pages ?a = 0 then None else Some (arg_max_pages ?a))
             (arg_details ?a) (Some (arg_start_url ?a)) 0 [] [] = Some (Inr [], 1, [Get ''http://s/empty.html''])"
    using demo_crawl_empty by simp
  from empty_crawl_no_export[OF h]
  have "main demo_env ?a [] = Some (None, [Get ''http://s/empty.html''] @ [Print ''No data collected.''])"
    by blast
  then show ?thesis by simp
qed

end
